(* ===== verification/Prelude.thy ===== *)
theory Prelude
  imports Main "HOL-Library.Word" "HOL-Library.Multiset" "HOL-Library.List_Lexorder"
    "HOL-Library.Char_ord"
begin

text \<open>
  The vocabulary the component theories share. It fixes the types that stand for the Go types
  of the sources (byte strings, \<open>uint64\<close>, instants and durations in nanoseconds, finite Go maps),
  the outcome of a piece of Go code that may panic after it has already changed its state, the
  parts of the Go language the sources use everywhere (slicing a string, iterating over a map,
  64-bit wrap-around), and the collections of rewrite rules the components fill.
\<close>

section \<open>Collections of facts\<close>

named_theorems go_simps \<open>evaluation rules for the Go library functions\<close>
named_theorems ledger_simps \<open>evaluation rules for the ledger's database operations\<close>
named_theorems inv_intros \<open>introduction rules for component invariants\<close>

section \<open>Types\<close>

text \<open>A Go string and a byte slice are both sequences of bytes.\<close>

type_synonym bytes = string
type_synonym uint64 = "64 word"

text \<open>
  \<open>time.Time\<close> is an instant in nanoseconds and \<open>time.Duration\<close> a difference of two instants.
  The zero value of \<open>time.Time\<close> is the instant \<open>0\<close>.
\<close>

type_synonym instant = int
type_synonym duration = int

abbreviation Millisecond :: duration where "Millisecond \<equiv> 1000000"
abbreviation Second :: duration where "Second \<equiv> 1000000000"

section \<open>Panics\<close>

text \<open>
  A Go run-time panic abandons the function at the point where it happens, and whatever the
  function had already written stays written. An \<open>outcome\<close> therefore carries the state in both
  cases: the state at the return together with the result, or the state at the panic together
  with its reason.
\<close>

datatype go_panic = SliceOutOfRange | IndexOutOfRange | InvalidArgument

datatype ('s, 'a) outcome = Returned (out_state: 's) (out_value: 'a) | Panicked (out_state: 's) (out_panic: go_panic)

fun returned :: "('s, 'a) outcome \<Rightarrow> bool" where
  "returned (Returned s a) = True"
| "returned (Panicked s p) = False"

text \<open>Running \<open>f\<close> after a piece of code that has returned; a panic ends the whole function.\<close>

fun bind_outcome :: "('s, 'a) outcome \<Rightarrow> ('s \<Rightarrow> 'a \<Rightarrow> ('s, 'b) outcome) \<Rightarrow> ('s, 'b) outcome" where
  "bind_outcome (Returned s a) f = f s a"
| "bind_outcome (Panicked s p) f = Panicked s p"

lemma bind_outcome_Returned:
  "bind_outcome x f = Returned t b \<longleftrightarrow> (\<exists>s a. x = Returned s a \<and> f s a = Returned t b)"
  by (cases x) auto

lemma bind_outcome_cong [fundef_cong]:
  "x = y \<Longrightarrow> (\<And>s a. y = Returned s a \<Longrightarrow> f s a = g s a) \<Longrightarrow> bind_outcome x f = bind_outcome y g"
  by (cases y) auto

text \<open>The slice expression \<open>s[:n]\<close>: it panics when the string is shorter than \<open>n\<close>.\<close>

definition slice_to :: "bytes \<Rightarrow> nat \<Rightarrow> go_panic + bytes" where
  "slice_to s n = (if n \<le> length s then Inr (take n s) else Inl SliceOutOfRange)"

text \<open>
  Evaluating the arguments of a log call that shows \<open>s[:8]\<close>: nothing happens to the state, but
  the call panics on a short string.
\<close>

definition log_prefix8 :: "'s \<Rightarrow> bytes \<Rightarrow> ('s, unit) outcome" where
  "log_prefix8 st s = (case slice_to s 8 of Inl p \<Rightarrow> Panicked st p | Inr _ \<Rightarrow> Returned st ())"

definition loggable :: "bytes \<Rightarrow> bool" where
  "loggable s \<longleftrightarrow> 8 \<le> length s"

lemma log_prefix8_loggable [simp]: "loggable s \<Longrightarrow> log_prefix8 st s = Returned st ()"
  by (simp add: log_prefix8_def slice_to_def loggable_def)

lemma log_prefix8_short [simp]: "\<not> loggable s \<Longrightarrow> log_prefix8 st s = Panicked st SliceOutOfRange"
  by (simp add: log_prefix8_def slice_to_def loggable_def)

lemma out_state_log_prefix8 [simp]: "out_state (log_prefix8 st s) = st"
  by (cases "loggable s") simp_all

lemma out_state_bind_Returned [simp]: "out_state (bind_outcome (log_prefix8 s e) (\<lambda>s _. Returned s x)) = s"
  by (cases "loggable e") simp_all

section \<open>HTTP handlers and parts of a state\<close>

text \<open>\<open>net/http\<close> recovers a handler's panic: what was written stays, and the server goes on.\<close>

fun recovered :: "('s, 'a) outcome \<Rightarrow> ('s, unit) outcome" where
  "recovered (Returned s a) = Returned s ()"
| "recovered (Panicked s p) = Returned s ()"

lemma recovered_out_state: "recovered x = Returned (out_state x) ()"
  by (cases x) auto

text \<open>Running an operation on one part of a larger state.\<close>

fun on_state :: "('s \<Rightarrow> 't) \<Rightarrow> ('s, 'a) outcome \<Rightarrow> ('t, 'a) outcome" where
  "on_state f (Returned s a) = Returned (f s) a"
| "on_state f (Panicked s p) = Panicked (f s) p"

lemma out_state_on_state [simp]: "out_state (on_state f x) = f (out_state x)"
  by (cases x) auto

section \<open>Go maps\<close>

text \<open>
  A Go map is a finite partial function. The order in which \<open>range\<close> visits its keys is chosen
  by the run-time, so a loop over a map takes that order as an argument: any list that holds each
  key of the map exactly once.
\<close>

definition range_order :: "('k \<rightharpoonup> 'v) \<Rightarrow> 'k list \<Rightarrow> bool" where
  "range_order m ks \<longleftrightarrow> distinct ks \<and> set ks = dom m"

lemma range_order_finite: "range_order m ks \<Longrightarrow> finite (dom m)"
  by (auto simp: range_order_def intro: finite_subset [of _ "set ks"])

lemma range_order_mem: "range_order m ks \<Longrightarrow> k \<in> set ks \<longleftrightarrow> m k \<noteq> None"
  by (auto simp: range_order_def)

lemma range_order_exists: "finite (dom m) \<Longrightarrow> \<exists>ks. range_order m ks"
  by (metis finite_distinct_list range_order_def)

text \<open>The values a map holds, with multiplicity, and how the updates change them.\<close>

definition map_values :: "('k \<rightharpoonup> 'v) \<Rightarrow> 'v multiset" where
  "map_values m = image_mset (\<lambda>k. the (m k)) (mset_set (dom m))"

lemma map_values_empty [simp]: "map_values Map.empty = {#}"
  by (simp add: map_values_def)

lemma map_values_cong_dom:
  assumes "\<And>k. k \<in> A \<Longrightarrow> f k = g k"
  shows "image_mset f (mset_set A) = image_mset g (mset_set A)"
proof (cases "finite A")
  case True
  with assms show ?thesis by (intro image_mset_cong) simp
qed simp

lemma map_values_insert:
  assumes "finite (dom m)" "m k = None"
  shows "map_values (m(k \<mapsto> v)) = add_mset v (map_values m)"
proof -
  have "k \<notin> dom m" using assms by auto
  moreover have "image_mset (\<lambda>x. the ((m(k \<mapsto> v)) x)) (mset_set (dom m)) = map_values m"
    unfolding map_values_def using assms by (intro map_values_cong_dom) auto
  ultimately show ?thesis using assms(1) by (simp add: map_values_def)
qed

lemma map_values_delete:
  assumes "finite (dom m)" "m k = Some v"
  shows "map_values m = add_mset v (map_values (m(k := None)))"
proof -
  have "m = (m(k := None))(k \<mapsto> v)" using assms(2) by (auto simp: fun_eq_iff)
  moreover have "map_values ((m(k := None))(k \<mapsto> v)) = add_mset v (map_values (m(k := None)))"
    using assms(1) by (intro map_values_insert) auto
  ultimately show ?thesis by metis
qed

lemma set_map_values: "finite (dom m) \<Longrightarrow> set_mset (map_values m) = ran m"
  by (force simp: map_values_def ran_def)

section \<open>64-bit integers\<close>

text \<open>Go's \<open>int\<close> is a 64-bit two's complement integer: arithmetic wraps around.\<close>

definition wrap64 :: "int \<Rightarrow> int" where
  "wrap64 i = (i + 2 ^ 63) mod 2 ^ 64 - 2 ^ 63"

definition int64 :: "int \<Rightarrow> bool" where
  "int64 i \<longleftrightarrow> - (2 ^ 63) \<le> i \<and> i < 2 ^ 63"

lemma wrap64_int64 [simp]: "int64 i \<Longrightarrow> wrap64 i = i"
  by (simp add: wrap64_def int64_def)

lemma int64_wrap64 [simp]: "int64 (wrap64 i)"
  by (auto simp: wrap64_def int64_def)

end
