(* ===== verification/Go_Lib.thy ===== *)
theory Go_Lib
  imports Prelude
begin

text \<open>
  The functions of Go's standard library the sources call on strings: \<open>strconv.Itoa\<close> and
  \<open>strconv.Atoi\<close>, \<open>encoding/hex\<close>, \<open>strings.HasPrefix\<close>, \<open>strings.Split\<close> and \<open>strings.Join\<close>. Each is
  executable. The lemmas are the round trips the components rely on: a balance written by
  \<open>Itoa\<close> is read back by \<open>Atoi\<close>, a signature written by \<open>hex.EncodeToString\<close> is read back by
  \<open>hex.DecodeString\<close>, and a list joined with a separator is split back into the same list.
\<close>

section \<open>strconv\<close>

definition digit_char :: "nat \<Rightarrow> char" where
  "digit_char d = char_of (48 + d)"

definition char_digit :: "char \<Rightarrow> nat option" where
  "char_digit c = (let n = of_char c in if 48 \<le> n \<and> n \<le> 57 then Some (n - 48) else None)"

fun decimal :: "nat \<Rightarrow> string" where
  "decimal n = (if n < 10 then [digit_char n] else decimal (n div 10) @ [digit_char (n mod 10)])"

declare decimal.simps [simp del]

definition Itoa :: "int \<Rightarrow> string" where
  "Itoa i = (if i < 0 then CHR ''-'' # decimal (nat (- i)) else decimal (nat i))"

datatype num_error = ErrSyntax | ErrRange

text \<open>
  The digit loop of \<open>strconv.ParseUint\<close>: it stops at the first byte that is no digit and at the
  first digit that takes the value out of 64 bits.
\<close>

fun parse_uint :: "string \<Rightarrow> nat \<Rightarrow> num_error + nat" where
  "parse_uint [] n = Inr n"
| "parse_uint (c # cs) n =
     (case char_digit c of
        None \<Rightarrow> Inl ErrSyntax
      | Some d \<Rightarrow> if 2 ^ 64 \<le> 10 * n + d then Inl ErrRange else parse_uint cs (10 * n + d))"

text \<open>
  \<open>strconv.Atoi\<close> gives a value and an error: on a syntax error the value is 0, out of range it is
  the nearest 64-bit integer.
\<close>

definition clamp_int :: "bool \<Rightarrow> nat \<Rightarrow> int \<times> num_error option" where
  "clamp_int neg un =
     (if \<not> neg \<and> 2 ^ 63 \<le> un then (2 ^ 63 - 1, Some ErrRange)
      else if neg \<and> 2 ^ 63 < un then (- (2 ^ 63), Some ErrRange)
      else (if neg then - int un else int un, None))"

definition Atoi :: "string \<Rightarrow> int \<times> num_error option" where
  "Atoi s =
     (let neg = (s \<noteq> [] \<and> hd s = CHR ''-'');
          body = (if s \<noteq> [] \<and> (hd s = CHR ''-'' \<or> hd s = CHR ''+'') then tl s else s)
      in if body = [] then (0, Some ErrSyntax)
         else case parse_uint body 0 of
                Inl ErrSyntax \<Rightarrow> (0, Some ErrSyntax)
              | Inl ErrRange \<Rightarrow> clamp_int neg (2 ^ 64 - 1)
              | Inr un \<Rightarrow> clamp_int neg un)"

text \<open>The value \<open>n\<close> of \<open>n, _ := strconv.Atoi(s)\<close>, whose error the sources discard.\<close>

definition atoi_val :: "string \<Rightarrow> int" where
  "atoi_val s = fst (Atoi s)"

lemma atoi_val_Nil [simp]: "atoi_val [] = 0"
  by (simp add: atoi_val_def Atoi_def)

lemma char_digit_digit_char [simp]: "d < 10 \<Longrightarrow> char_digit (digit_char d) = Some d"
  by (simp add: char_digit_def digit_char_def)

lemma digit_char_not_sign:
  assumes "d < 10"
  shows "digit_char d \<noteq> CHR ''-''" "digit_char d \<noteq> CHR ''+''"
proof -
  have "of_char (digit_char d) = 48 + d" using assms by (simp add: digit_char_def)
  moreover have "of_char (CHR ''-'') = (45 :: nat)" "of_char (CHR ''+'') = (43 :: nat)" by simp_all
  ultimately show "digit_char d \<noteq> CHR ''-''" "digit_char d \<noteq> CHR ''+''" by force+
qed

lemma decimal_digits: "\<exists>d < 10. \<exists>cs. decimal n = digit_char d # cs"
proof (induction n rule: decimal.induct)
  case (1 n)
  show ?case
  proof (cases "n < 10")
    case True
    then show ?thesis by (subst decimal.simps) auto
  next
    case False
    with "1.IH" obtain d cs where "d < 10" "decimal (n div 10) = digit_char d # cs" by blast
    with False show ?thesis by (subst decimal.simps) auto
  qed
qed

lemma parse_uint_append:
  "parse_uint (xs @ ys) n =
     (case parse_uint xs n of Inl e \<Rightarrow> Inl e | Inr m \<Rightarrow> parse_uint ys m)"
  by (induction xs arbitrary: n) (auto split: option.splits)

lemma parse_uint_decimal: "n < 2 ^ 64 \<Longrightarrow> parse_uint (decimal n) 0 = Inr n"
proof (induction n rule: decimal.induct)
  case (1 n)
  show ?case
  proof (cases "n < 10")
    case True
    then show ?thesis by (subst decimal.simps) simp
  next
    case False
    with "1" have IH: "parse_uint (decimal (n div 10)) 0 = Inr (n div 10)" by simp
    have "10 * (n div 10) + n mod 10 = n" by simp
    with IH False "1.prems" show ?thesis by (subst decimal.simps) (simp add: parse_uint_append)
  qed
qed

text \<open>A 64-bit integer printed by \<open>Itoa\<close> is read back by \<open>Atoi\<close> without an error.\<close>

lemma Atoi_Itoa [simp]:
  assumes "int64 i"
  shows "Atoi (Itoa i) = (i, None)"
proof (cases "i < 0")
  case True
  then have "nat (- i) < 2 ^ 64" using assms by (simp add: int64_def)
  then have "parse_uint (decimal (nat (- i))) 0 = Inr (nat (- i))" by (rule parse_uint_decimal)
  moreover have "decimal (nat (- i)) \<noteq> []" using decimal_digits [of "nat (- i)"] by auto
  ultimately show ?thesis using True assms
    by (simp add: Atoi_def Itoa_def clamp_int_def int64_def)
next
  case False
  then have "nat i < 2 ^ 64" using assms by (simp add: int64_def)
  then have p: "parse_uint (decimal (nat i)) 0 = Inr (nat i)" by (rule parse_uint_decimal)
  obtain d cs where "d < 10" "decimal (nat i) = digit_char d # cs" using decimal_digits by blast
  with p False assms show ?thesis
    by (simp add: Atoi_def Itoa_def clamp_int_def int64_def digit_char_not_sign)
qed

lemma atoi_val_Itoa [simp]: "int64 i \<Longrightarrow> atoi_val (Itoa i) = i"
  by (simp add: atoi_val_def)

lemma clamp_int_int64: "int64 (fst (clamp_int neg un))"
  by (auto simp: clamp_int_def int64_def)

lemma atoi_val_int64 [simp]: "int64 (atoi_val s)"
proof -
  have "int64 0" by (simp add: int64_def)
  then show ?thesis
    by (auto simp: atoi_val_def Atoi_def Let_def clamp_int_int64 split: sum.splits num_error.splits)
qed

section \<open>encoding/hex\<close>

definition hextable :: "nat \<Rightarrow> char" where
  "hextable n = (if n < 10 then char_of (48 + n) else char_of (87 + n))"

definition reverse_hex :: "char \<Rightarrow> nat option" where
  "reverse_hex c = (let n = of_char c in
     if 48 \<le> n \<and> n \<le> 57 then Some (n - 48)
     else if 97 \<le> n \<and> n \<le> 102 then Some (n - 87)
     else if 65 \<le> n \<and> n \<le> 70 then Some (n - 55)
     else None)"

fun hex_EncodeToString :: "bytes \<Rightarrow> string" where
  "hex_EncodeToString [] = []"
| "hex_EncodeToString (b # bs) =
     hextable (of_char b div 16) # hextable (of_char b mod 16) # hex_EncodeToString bs"

text \<open>\<open>None\<close> stands for the error of \<open>hex.DecodeString\<close>: an odd length or a byte that is no digit.\<close>

fun hex_DecodeString :: "string \<Rightarrow> bytes option" where
  "hex_DecodeString [] = Some []"
| "hex_DecodeString [c] = None"
| "hex_DecodeString (c # d # cs) =
     (case (reverse_hex c, reverse_hex d, hex_DecodeString cs) of
        (Some a, Some b, Some bs) \<Rightarrow> Some (char_of (16 * a + b) # bs)
      | _ \<Rightarrow> None)"

lemma reverse_hex_hextable [simp]: "n < 16 \<Longrightarrow> reverse_hex (hextable n) = Some n"
  by (auto simp: reverse_hex_def hextable_def Let_def)

lemma hex_Decode_Encode [simp]: "hex_DecodeString (hex_EncodeToString bs) = Some bs"
proof (induction bs)
  case (Cons b bs)
  have "of_char b div 16 < (16 :: nat)" using nat_of_char_less_256 [of b] by linarith
  then show ?case using Cons by (simp add: mult.commute)
qed simp

lemma length_hex_EncodeToString [simp]: "length (hex_EncodeToString bs) = 2 * length bs"
  by (induction bs) auto

lemma hex_DecodeString_length: "hex_DecodeString s = Some bs \<Longrightarrow> length s = 2 * length bs"
  by (induction s arbitrary: bs rule: hex_DecodeString.induct) (auto split: option.splits)

section \<open>strings\<close>

definition HasPrefix :: "string \<Rightarrow> string \<Rightarrow> bool" where
  "HasPrefix s p \<longleftrightarrow> take (length p) s = p"

text \<open>\<open>strings.Split\<close> with a separator of one byte.\<close>

fun Split :: "string \<Rightarrow> char \<Rightarrow> string list" where
  "Split [] sep = [[]]"
| "Split (c # cs) sep =
     (if c = sep then [] # Split cs sep
      else case Split cs sep of [] \<Rightarrow> [[c]] | w # ws \<Rightarrow> (c # w) # ws)"

fun Join :: "string list \<Rightarrow> char \<Rightarrow> string" where
  "Join [] sep = []"
| "Join [w] sep = w"
| "Join (w # v # ws) sep = w @ sep # Join (v # ws) sep"

lemma HasPrefix_append [simp]: "HasPrefix (p @ s) p"
  by (simp add: HasPrefix_def)

lemma HasPrefix_iff: "HasPrefix s p \<longleftrightarrow> (\<exists>t. s = p @ t)"
  by (metis HasPrefix_append HasPrefix_def append_take_drop_id)

lemma Split_not_Nil [simp]: "Split s sep \<noteq> []"
  by (cases s) (auto split: list.splits)

lemma Split_no_sep: "sep \<notin> set s \<Longrightarrow> Split s sep = [s]"
  by (induction s) auto

lemma Split_append: "sep \<notin> set w \<Longrightarrow> Split (w @ sep # s) sep = w # Split s sep"
  by (induction w) auto

lemma Split_fields: "w \<in> set (Split s sep) \<Longrightarrow> sep \<notin> set w"
proof (induction s arbitrary: w)
  case (Cons c cs)
  obtain v vs where "Split cs sep = v # vs" by (cases "Split cs sep") auto
  with Cons show ?case by (auto split: if_splits)
qed simp

text \<open>Joining fields that do not hold the separator and splitting gives the fields back.\<close>

lemma Split_Join:
  "ws \<noteq> [] \<Longrightarrow> (\<And>w. w \<in> set ws \<Longrightarrow> sep \<notin> set w) \<Longrightarrow> Split (Join ws sep) sep = ws"
  by (induction ws sep rule: Join.induct) (auto simp: Split_no_sep Split_append)

lemma Join_inject:
  assumes "Join ws sep = Join vs sep" "ws \<noteq> []" "vs \<noteq> []"
    and "\<And>w. w \<in> set ws \<Longrightarrow> sep \<notin> set w" "\<And>v. v \<in> set vs \<Longrightarrow> sep \<notin> set v"
  shows "ws = vs"
  by (metis Split_Join assms)

text \<open>The field after the first separator, as in \<open>strings.Split(key, ":")[1]\<close>.\<close>

lemma Split_second:
  "sep \<notin> set p \<Longrightarrow> Split (p @ sep # s) sep ! 1 = hd (Split s sep)"
  by (simp add: Split_append hd_conv_nth)

lemma Split_hd_no_sep: "sep \<notin> set s \<Longrightarrow> hd (Split s sep) = s"
  by (simp add: Split_no_sep)

section \<open>Base64\<close>

text \<open>\<open>base64.StdEncoding.EncodeToString\<close>: groups of three bytes as four characters, padded with \<open>=\<close>.\<close>

definition base64_alphabet :: string where
  "base64_alphabet = ''ABCDEFGHIJKLMNOPQRSTUVWXYZabcdefghijklmnopqrstuvwxyz0123456789+/''"

definition base64_char :: "nat \<Rightarrow> char" where
  "base64_char n = base64_alphabet ! n"

definition byte_val :: "char \<Rightarrow> nat" where
  "byte_val c = of_char c"

fun base64_EncodeToString :: "bytes \<Rightarrow> string" where
  "base64_EncodeToString [] = []"
| "base64_EncodeToString [a] =
     (let n = byte_val a * 16 in [base64_char (n div 64), base64_char (n mod 64), CHR ''='', CHR ''=''])"
| "base64_EncodeToString [a, b] =
     (let n = (byte_val a * 256 + byte_val b) * 4
      in [base64_char (n div 4096), base64_char (n div 64 mod 64), base64_char (n mod 64), CHR ''=''])"
| "base64_EncodeToString (a # b # c # rest) =
     (let n = byte_val a * 65536 + byte_val b * 256 + byte_val c
      in [base64_char (n div 262144), base64_char (n div 4096 mod 64), base64_char (n div 64 mod 64), base64_char (n mod 64)]
         @ base64_EncodeToString rest)"

section \<open>net\<close>

text \<open>How an attempt to send a datagram ends.\<close>

datatype udp_result = ResolveFailed | DialFailed | WriteFailed | Sent

end
