(* ===== verification/Go_UTF8.thy ===== *)
theory Go_UTF8
  imports Go_Lib
begin

text \<open>
  Strings in \<open>encoding/json\<close>: UTF-8 as \<open>unicode/utf8\<close> reads it, the escapes \<open>json.Marshal\<close> writes, and the
  reading of a string literal. A string that is read back is the one that was written, with each byte
  that is not part of a well-formed character replaced by U+FFFD; and whatever is read is well-formed.
\<close>

section \<open>UTF-8\<close>

definition between :: "nat \<Rightarrow> char \<Rightarrow> nat \<Rightarrow> bool" where
  "between lo c hi \<longleftrightarrow> lo \<le> byte_val c \<and> byte_val c \<le> hi"

text \<open>The length of the character a byte begins, 0 for none, and the bounds of its second byte.\<close>

definition utf8_need :: "char \<Rightarrow> nat" where
  "utf8_need c =
     (if byte_val c < 128 then 1 else if between 194 c 223 then 2 else if between 224 c 239 then 3
      else if between 240 c 244 then 4 else 0)"

definition second_ok :: "char \<Rightarrow> char \<Rightarrow> bool" where
  "second_ok c b \<longleftrightarrow>
     between (if byte_val c = 224 then 160 else if byte_val c = 240 then 144 else 128) b
       (if byte_val c = 237 then 159 else if byte_val c = 244 then 143 else 191)"

fun tail_ok :: "char \<Rightarrow> bytes \<Rightarrow> bool" where
  "tail_ok c [] = True"
| "tail_ok c (b # bs) = (second_ok c b \<and> list_all (\<lambda>x. between 128 x 191) bs)"

text \<open>
  The number of bytes of the character a text begins with, and 0 when its first byte begins no
  well-formed character (\<open>utf8.DecodeRune\<close> then reports \<open>RuneError\<close> with width 1).
\<close>

fun utf8_width :: "bytes \<Rightarrow> nat" where
  "utf8_width [] = 0"
| "utf8_width (c # s) =
     (let n = utf8_need c in if n - 1 \<le> length s \<and> tail_ok c (take (n - 1) s) then n else 0)"

declare utf8_width.simps(2) [simp del]

text \<open>U+FFFD, and \<open>utf8.EncodeRune\<close>.\<close>

definition replacement :: bytes where
  "replacement = [CHR 0xEF, CHR 0xBF, CHR 0xBD]"

definition surrogate :: "nat \<Rightarrow> bool" where
  "surrogate v \<longleftrightarrow> 0xD800 \<le> v \<and> v < 0xE000"

definition encode_rune :: "nat \<Rightarrow> bytes" where
  "encode_rune v =
     (if v < 128 then [char_of v]
      else if v < 2048 then [char_of (192 + v div 64), char_of (128 + v mod 64)]
      else if surrogate v \<or> 0x10FFFF < v then replacement
      else if v < 65536 then [char_of (224 + v div 4096), char_of (128 + v div 64 mod 64), char_of (128 + v mod 64)]
      else [char_of (240 + v div 262144), char_of (128 + v div 4096 mod 64), char_of (128 + v div 64 mod 64), char_of (128 + v mod 64)])"

fun valid_utf8 :: "bytes \<Rightarrow> bool" where
  "valid_utf8 [] = True"
| "valid_utf8 (c # s) = (utf8_width (c # s) \<noteq> 0 \<and> valid_utf8 (drop (utf8_width (c # s) - 1) s))"

text \<open>A text with every byte outside a well-formed character replaced.\<close>

fun to_valid :: "bytes \<Rightarrow> bytes" where
  "to_valid [] = []"
| "to_valid (c # s) =
     (if utf8_width (c # s) = 0 then replacement @ to_valid s
      else c # take (utf8_width (c # s) - 1) s @ to_valid (drop (utf8_width (c # s) - 1) s))"

declare valid_utf8.simps(2) [simp del] to_valid.simps(2) [simp del]

lemma utf8_width_ascii [simp]: "byte_val c < 128 \<Longrightarrow> utf8_width (c # s) = 1"
  by (simp add: utf8_width.simps utf8_need_def)

text \<open>A well-formed character is recognised whatever follows it.\<close>

lemma utf8_width_need: "utf8_width (c # s) \<noteq> 0 \<Longrightarrow> utf8_width (c # s) = utf8_need c"
  by (simp add: utf8_width.simps Let_def split: if_splits)

lemma utf8_width_prefix:
  "utf8_width (c # s) \<noteq> 0 \<Longrightarrow>
     utf8_width (c # take (utf8_width (c # s) - 1) s @ t) = utf8_width (c # s) \<and> utf8_width (c # s) - 1 \<le> length s"
  by (auto simp: utf8_width.simps Let_def split: if_splits)

lemma utf8_width_append:
  "utf8_width (c # s) \<noteq> 0 \<Longrightarrow> utf8_width (c # s @ t) = utf8_width (c # s)"
  by (auto simp: utf8_width.simps Let_def split: if_splits)

lemma valid_utf8_append: "valid_utf8 s \<Longrightarrow> valid_utf8 t \<Longrightarrow> valid_utf8 (s @ t)"
proof (induction s rule: valid_utf8.induct)
  case (2 c s)
  then have w: "utf8_width (c # s) \<noteq> 0" "valid_utf8 (drop (utf8_width (c # s) - 1) s)"
    by (simp_all add: valid_utf8.simps)
  then have "utf8_width (c # s) - 1 \<le> length s" using utf8_width_prefix by blast
  then show ?case using 2 w by (simp add: valid_utf8.simps utf8_width_append)
qed simp

lemma to_valid_valid [simp]: "valid_utf8 s \<Longrightarrow> to_valid s = s"
  by (induction s rule: valid_utf8.induct) (simp_all add: valid_utf8.simps to_valid.simps)

lemma valid_utf8_char:
  "utf8_width (c # s) \<noteq> 0 \<Longrightarrow> valid_utf8 (c # take (utf8_width (c # s) - 1) s)"
  using utf8_width_prefix [of c s "[]"] by (simp add: valid_utf8.simps)

lemma valid_replacement [simp]: "valid_utf8 replacement"
  by (simp add: replacement_def valid_utf8.simps utf8_width.simps utf8_need_def second_ok_def between_def byte_val_def)

lemma valid_to_valid [simp]: "valid_utf8 (to_valid s)"
proof (induction s rule: to_valid.induct)
  case (2 c s)
  then show ?case
    using valid_utf8_append [OF valid_replacement] valid_utf8_append [OF valid_utf8_char, of c s]
    by (simp add: to_valid.simps)
qed simp

lemma valid_ascii: "\<forall>c \<in> set s. byte_val c < 128 \<Longrightarrow> valid_utf8 s"
  by (induction s) (simp_all add: valid_utf8.simps)

lemma byte_val_char_of [simp]: "n < 256 \<Longrightarrow> byte_val (char_of n) = n"
  by (simp add: byte_val_def)

lemma char_of_byte_val [simp]: "char_of (byte_val c) = c"
  by (simp add: byte_val_def)

lemma valid_two:
  fixes a b :: nat
  assumes "194 \<le> a" "a \<le> 223" "b < 64"
  shows "valid_utf8 [char_of a, char_of (128 + b)]"
proof -
  have "utf8_need (char_of a) = 2" "second_ok (char_of a) (char_of (128 + b))"
    using assms by (simp_all add: utf8_need_def second_ok_def between_def)
  then show ?thesis by (simp add: valid_utf8.simps utf8_width.simps)
qed

lemma valid_three:
  fixes a b c :: nat
  assumes "224 \<le> a" "a \<le> 239" "b < 64" "c < 64" "a = 224 \<longrightarrow> 32 \<le> b" "a = 237 \<longrightarrow> b < 32"
  shows "valid_utf8 [char_of a, char_of (128 + b), char_of (128 + c)]"
proof -
  have "utf8_need (char_of a) = 3" using assms by (simp add: utf8_need_def between_def)
  moreover have "second_ok (char_of a) (char_of (128 + b))" using assms by (auto simp: second_ok_def between_def)
  moreover have "between 128 (char_of (128 + c)) 191" using assms by (simp add: between_def)
  ultimately show ?thesis by (simp add: valid_utf8.simps utf8_width.simps eval_nat_numeral)
qed

lemma valid_four:
  fixes a b c d :: nat
  assumes "240 \<le> a" "a \<le> 244" "b < 64" "c < 64" "d < 64" "a = 240 \<longrightarrow> 16 \<le> b" "a = 244 \<longrightarrow> b < 16"
  shows "valid_utf8 [char_of a, char_of (128 + b), char_of (128 + c), char_of (128 + d)]"
proof -
  have "utf8_need (char_of a) = 4" using assms by (simp add: utf8_need_def between_def)
  moreover have "second_ok (char_of a) (char_of (128 + b))" using assms by (auto simp: second_ok_def between_def)
  moreover have "between 128 (char_of (128 + c)) 191" "between 128 (char_of (128 + d)) 191"
    using assms by (simp_all add: between_def)
  ultimately show ?thesis by (simp add: valid_utf8.simps utf8_width.simps eval_nat_numeral)
qed

lemma mod64_bounds:
  fixes x :: nat
  shows "x div 64 = k \<Longrightarrow> x < 64 * k + n \<Longrightarrow> x mod 64 < n" "x div 64 = k \<Longrightarrow> 64 * k + n \<le> x \<Longrightarrow> n \<le> x mod 64"
  using minus_mult_div_eq_mod [of x 64] by linarith+

lemma valid_encode_rune [simp]: "valid_utf8 (encode_rune v)"
proof -
  consider "v < 128" | "128 \<le> v" "v < 2048" | "2048 \<le> v" "surrogate v \<or> 0x10FFFF < v"
    | "2048 \<le> v" "v < 65536" "\<not> surrogate v" | "65536 \<le> v" "v \<le> 0x10FFFF"
    by fastforce
  then show ?thesis
  proof cases
    case 1
    then show ?thesis by (simp add: encode_rune_def valid_utf8.simps)
  next
    case 2
    then have "194 \<le> 192 + v div 64" "192 + v div 64 \<le> 223" by auto
    from valid_two [OF this, of "v mod 64"] 2 show ?thesis by (simp add: encode_rune_def)
  next
    case 3
    then show ?thesis by (simp add: encode_rune_def)
  next
    case 4
    have q: "v div 4096 = v div 64 div 64" by (simp flip: div_mult2_eq)
    have "valid_utf8 [char_of (224 + v div 4096), char_of (128 + v div 64 mod 64), char_of (128 + v mod 64)]"
    proof (rule valid_three)
      show "224 + v div 4096 \<le> 239" using 4 by auto
      show "224 + v div 4096 = 224 \<longrightarrow> 32 \<le> v div 64 mod 64"
        using mod64_bounds(2) [of "v div 64" 0 32] 4(1) q by (simp add: less_eq_div_iff_mult_less_eq)
      show "224 + v div 4096 = 237 \<longrightarrow> v div 64 mod 64 < 32"
      proof
        assume "224 + v div 4096 = 237"
        then have v: "v div 64 div 64 = 13" "v div 4096 = 13" using q by simp_all
        then have "v < 0xD800" using 4(3) by (auto simp: surrogate_def)
        then have "v div 64 < 864" by auto
        then show "v div 64 mod 64 < 32" using mod64_bounds(1) [OF v(1), of 32] by simp
      qed
    qed auto
    with 4 show ?thesis by (simp add: encode_rune_def)
  next
    case 5
    have q: "v div 262144 = v div 4096 div 64" by (simp flip: div_mult2_eq)
    have "valid_utf8 [char_of (240 + v div 262144), char_of (128 + v div 4096 mod 64), char_of (128 + v div 64 mod 64), char_of (128 + v mod 64)]"
    proof (rule valid_four)
      show "240 + v div 262144 \<le> 244" using 5 by auto
      show "240 + v div 262144 = 240 \<longrightarrow> 16 \<le> v div 4096 mod 64"
        using mod64_bounds(2) [of "v div 4096" 0 16] 5(1) q by (simp add: less_eq_div_iff_mult_less_eq)
      have "v div 4096 < 272" using 5(2) by auto
      then show "240 + v div 262144 = 244 \<longrightarrow> v div 4096 mod 64 < 16"
        using mod64_bounds(1) [of "v div 4096" 4 16] q by simp
    qed auto
    with 5 show ?thesis by (simp add: encode_rune_def surrogate_def)
  qed
qed

section \<open>Writing a string\<close>

definition u_escape :: "nat \<Rightarrow> bytes" where
  "u_escape v =
     [CHR 0x5C, CHR ''u'', hextable (v div 4096 mod 16), hextable (v div 256 mod 16), hextable (v div 16 mod 16), hextable (v mod 16)]"

text \<open>One byte below 128, as \<open>appendString\<close> writes it with HTML escaping.\<close>

definition escape_ascii :: "char \<Rightarrow> bytes" where
  "escape_ascii c =
     (if c = CHR 0x22 \<or> c = CHR 0x5C then [CHR 0x5C, c]
      else if c = CHR 0x08 then [CHR 0x5C, CHR ''b'']
      else if c = CHR 0x0C then [CHR 0x5C, CHR ''f'']
      else if c = CHR 0x0A then [CHR 0x5C, CHR ''n'']
      else if c = CHR 0x0D then [CHR 0x5C, CHR ''r'']
      else if c = CHR 0x09 then [CHR 0x5C, CHR ''t'']
      else if byte_val c < 32 \<or> c = CHR ''<'' \<or> c = CHR ''>'' \<or> c = CHR ''&'' then u_escape (byte_val c)
      else [c])"

fun escape :: "bytes \<Rightarrow> bytes" where
  "escape [] = []"
| "escape (c # s) =
     (if byte_val c < 128 then escape_ascii c @ escape s
      else if utf8_width (c # s) = 0 then u_escape 0xFFFD @ escape s
      else if take 3 (c # s) = encode_rune 0x2028 then u_escape 0x2028 @ escape (drop 2 s)
      else if take 3 (c # s) = encode_rune 0x2029 then u_escape 0x2029 @ escape (drop 2 s)
      else c # take (utf8_width (c # s) - 1) s @ escape (drop (utf8_width (c # s) - 1) s))"

declare escape.simps(2) [simp del]

section \<open>Reading a string\<close>

text \<open>Four hexadecimal digits.\<close>

fun hex4 :: "bytes \<Rightarrow> nat option" where
  "hex4 (a # b # c # d # _) =
     (case (reverse_hex a, reverse_hex b, reverse_hex c, reverse_hex d) of
        (Some w, Some x, Some y, Some z) \<Rightarrow> Some (4096 * w + 256 * x + 16 * y + z)
      | _ \<Rightarrow> None)"
| "hex4 _ = None"

definition prepend :: "bytes \<Rightarrow> (bytes \<times> 'r) option \<Rightarrow> (bytes \<times> 'r) option" where
  "prepend p r = (case r of None \<Rightarrow> None | Some (s, rest) \<Rightarrow> Some (p @ s, rest))"

definition simple_escape :: "char \<Rightarrow> char option" where
  "simple_escape e =
     (if e = CHR 0x22 \<or> e = CHR 0x5C \<or> e = CHR ''/'' then Some e
      else if e = CHR ''b'' then Some (CHR 0x08)
      else if e = CHR ''f'' then Some (CHR 0x0C)
      else if e = CHR ''n'' then Some (CHR 0x0A)
      else if e = CHR ''r'' then Some (CHR 0x0D)
      else if e = CHR ''t'' then Some (CHR 0x09)
      else None)"

text \<open>The second half of a surrogate pair that follows, if there is one.\<close>

definition low_surrogate :: "nat \<Rightarrow> bytes \<Rightarrow> nat option" where
  "low_surrogate v r =
     (if v < 0xDC00 \<and> take 2 r = [CHR 0x5C, CHR ''u'']
      then case hex4 (drop 2 r) of Some w \<Rightarrow> if 0xDC00 \<le> w \<and> w < 0xE000 then Some w else None | None \<Rightarrow> None
      else None)"

text \<open>
  The text after an opening quote, up to its closing quote: the contents and what follows. \<open>None\<close> is a
  syntax error.
\<close>

fun unquote :: "bytes \<Rightarrow> (bytes \<times> bytes) option" where
  "unquote [] = None"
| "unquote (c # s) =
     (if c = CHR 0x22 then Some ([], s)
      else if c = CHR 0x5C then
        (case s of
           [] \<Rightarrow> None
         | e # r \<Rightarrow>
             if e = CHR ''u'' then
               (case hex4 r of
                  None \<Rightarrow> None
                | Some v \<Rightarrow>
                    if surrogate v then
                      (case low_surrogate v (drop 4 r) of
                         Some w \<Rightarrow> prepend (encode_rune (65536 + (v - 0xD800) * 1024 + (w - 0xDC00))) (unquote (drop 10 r))
                       | None \<Rightarrow> prepend replacement (unquote (drop 4 r)))
                    else prepend (encode_rune v) (unquote (drop 4 r)))
             else
               (case simple_escape e of
                  None \<Rightarrow> None
                | Some x \<Rightarrow> prepend [x] (unquote r)))
      else if byte_val c < 32 then None
      else if utf8_width (c # s) = 0 then prepend replacement (unquote s)
      else prepend (c # take (utf8_width (c # s) - 1) s) (unquote (drop (utf8_width (c # s) - 1) s)))"

declare unquote.simps(2) [simp del]

lemma prepend_Some [simp]: "prepend p (Some (s, rest)) = Some (p @ s, rest)" "prepend p None = None"
  by (simp_all add: prepend_def)

lemma prepend_eq_Some: "prepend p r = Some (t, rest) \<longleftrightarrow> (\<exists>s. r = Some (s, rest) \<and> t = p @ s)"
  by (auto simp: prepend_def split: option.splits)

text \<open>
  Each step of reading ends the string or contributes some well-formed bytes; so reading consumes the
  text, and what it gives is well-formed.
\<close>

lemma unquote_u:
  "hex4 r = Some v \<Longrightarrow> \<not> surrogate v \<Longrightarrow> unquote (CHR 0x5C # CHR ''u'' # r) = prepend (encode_rune v) (unquote (drop 4 r))"
  by (simp add: unquote.simps(2) [of "CHR 0x5C"])

lemma unquote_simple:
  "simple_escape e = Some c \<Longrightarrow> e \<noteq> CHR ''u'' \<Longrightarrow> unquote (CHR 0x5C # e # s) = prepend [c] (unquote s)"
  by (simp add: unquote.simps(2) [of "CHR 0x5C"])

definition contributes :: "bytes \<Rightarrow> bytes \<Rightarrow> bytes \<Rightarrow> bool" where
  "contributes s t r \<longleftrightarrow> (\<exists>p k t'. unquote (drop k s) = Some (t', r) \<and> t = p @ t' \<and> valid_utf8 p)"

lemma contributesI: "prepend p (unquote (drop k s)) = Some (t, r) \<Longrightarrow> valid_utf8 p \<Longrightarrow> contributes s t r"
  by (auto simp: contributes_def prepend_eq_Some)

lemma escaped_step:
  assumes "unquote (CHR 0x5C # e # r) = Some (t, rest)"
  shows "contributes (e # r) t rest"
proof (cases "e = CHR ''u''")
  case u: True
  then obtain v where v: "hex4 r = Some v" using assms by (auto simp: unquote.simps split: option.splits)
  show ?thesis
  proof (cases "surrogate v")
    case True
    then have "(\<exists>p. valid_utf8 p \<and> prepend p (unquote (drop 11 (e # r))) = Some (t, rest)) \<or>
        prepend replacement (unquote (drop 5 (e # r))) = Some (t, rest)"
      using v u assms by (auto simp: unquote.simps(2) [of "CHR 0x5C"] split: option.splits intro: valid_encode_rune)
    then show ?thesis using contributesI valid_replacement by blast
  next
    case False
    then have "prepend (encode_rune v) (unquote (drop 5 (e # r))) = Some (t, rest)"
      using assms u unquote_u [OF v] by simp
    then show ?thesis using contributesI valid_encode_rune by blast
  qed
next
  case False
  then obtain x where x: "simple_escape e = Some x" using assms by (auto simp: unquote.simps(2) [of "CHR 0x5C"] split: option.splits)
  then have "byte_val x < 128" by (auto simp: simple_escape_def byte_val_def split: if_splits)
  then have "valid_utf8 [x]" by (simp add: valid_utf8.simps)
  moreover have "prepend [x] (unquote (drop 1 (e # r))) = Some (t, rest)"
    using assms unquote_simple [OF x False] by simp
  ultimately show ?thesis using contributesI by blast
qed

lemma unquote_step:
  assumes "unquote (c # s) = Some (t, r)"
  shows "(t = [] \<and> r = s) \<or> contributes s t r"
proof (cases "c = CHR 0x22 \<or> c = CHR 0x5C")
  case True
  then show ?thesis using assms escaped_step by (cases s) (auto simp: unquote.simps)
next
  case False
  show ?thesis
  proof (cases "utf8_width (c # s) = 0")
    case True
    then have "prepend replacement (unquote (drop 0 s)) = Some (t, r)"
      using False assms by (auto simp: unquote.simps split: if_splits)
    then show ?thesis using contributesI valid_replacement by blast
  next
    case w: False
    then have "prepend (c # take (utf8_width (c # s) - 1) s) (unquote (drop (utf8_width (c # s) - 1) s)) = Some (t, r)"
      using False assms by (auto simp: unquote.simps split: if_splits)
    then show ?thesis using contributesI valid_utf8_char [OF w] by blast
  qed
qed

lemma unquote_sound: "unquote s = Some (t, r) \<Longrightarrow> length r < length s \<and> valid_utf8 t"
proof (induction s arbitrary: t r rule: length_induct)
  case (1 s)
  then obtain c s' where s: "s = c # s'" by (cases s) auto
  from unquote_step [OF 1(2) [unfolded s]] show ?case
  proof
    assume "contributes s' t r"
    then obtain p k t' where p: "unquote (drop k s') = Some (t', r)" "t = p @ t'" "valid_utf8 p"
      unfolding contributes_def by blast
    then have "length r < length (drop k s') \<and> valid_utf8 t'"
      using 1(1) [rule_format, of "drop k s'"] unfolding s by (simp add: less_Suc_eq_le)
    then show ?thesis using p(2,3) s valid_utf8_append by auto
  qed (use s in simp)
qed

lemma hex_digits: "v < (65536 :: nat) \<Longrightarrow>
  4096 * (v div 4096 mod 16) + 256 * (v div 256 mod 16) + 16 * (v div 16 mod 16) + v mod 16 = v"
proof -
  assume v: "v < 65536"
  have q: "v div 256 = v div 16 div 16" "v div 4096 = v div 256 div 16" by (simp_all flip: div_mult2_eq)
  have d: "16 * (x div 16) + x mod 16 = x" for x :: nat by simp
  have "v div 4096 mod 16 = v div 4096" using v by auto
  then show ?thesis using d [of v] d [of "v div 16"] d [of "v div 256"] unfolding q(1) [symmetric] q(2) [symmetric] by linarith
qed

lemma hex4_u_escape: "v < 65536 \<Longrightarrow> hex4 (drop 2 (u_escape v) @ s) = Some v"
  using hex_digits [of v] by (simp add: u_escape_def)

section \<open>The round trip\<close>

lemma unquote_u_escape:
  assumes "v < 65536" "\<not> surrogate v"
  shows "unquote (u_escape v @ s) = prepend (encode_rune v) (unquote s)"
proof -
  obtain h where h: "u_escape v = CHR 0x5C # CHR ''u'' # h" "length h = 4" by (simp add: u_escape_def)
  then have "hex4 (h @ s) = Some v" using hex4_u_escape [OF assms(1), of s] by simp
  from unquote_u [OF this assms(2)] show ?thesis using h by simp
qed

lemma unquote_escape_ascii:
  assumes "byte_val c < 128"
  shows "unquote (escape_ascii c @ s) = prepend [c] (unquote s)"
proof -
  have u: "unquote (u_escape (byte_val c) @ s) = prepend [c] (unquote s)"
    using assms by (subst unquote_u_escape) (auto simp: surrogate_def encode_rune_def)
  have p: "c \<noteq> CHR 0x22 \<Longrightarrow> c \<noteq> CHR 0x5C \<Longrightarrow> \<not> byte_val c < 32 \<Longrightarrow> unquote (c # s) = prepend [c] (unquote s)"
    using assms by (simp add: unquote.simps)
  show ?thesis
    unfolding escape_ascii_def using u p by (simp add: unquote_simple simple_escape_def)
qed

lemma char_of_eqI: "byte_val c = n \<Longrightarrow> char_of n = c"
  by (auto simp: byte_val_def)

lemma encode_separators:
  "encode_rune 0x2028 = [CHR 0xE2, CHR 0x80, CHR 0xA8]" "encode_rune 0x2029 = [CHR 0xE2, CHR 0x80, CHR 0xA9]"
  "encode_rune 0xFFFD = replacement"
  by (simp_all add: encode_rune_def surrogate_def replacement_def char_of_eqI byte_val_def)

lemma width_separators:
  "utf8_width (CHR 0xE2 # CHR 0x80 # CHR 0xA8 # s) = 3" "utf8_width (CHR 0xE2 # CHR 0x80 # CHR 0xA9 # s) = 3"
  by (simp_all add: utf8_width.simps utf8_need_def second_ok_def between_def byte_val_def)

lemma to_valid_separator:
  assumes "take 3 (c # s) = encode_rune v" "v = 0x2028 \<or> v = 0x2029"
  shows "to_valid (c # s) = encode_rune v @ to_valid (drop 2 s)"
proof -
  have s: "c # s = encode_rune v @ drop 2 s"
    using append_take_drop_id [of 3 "c # s"] assms(1) by (metis drop_Suc_Cons numeral_3_eq_3 numeral_2_eq_2)
  show ?thesis using assms(2)
  proof
    assume "v = 0x2028"
    then show ?thesis unfolding s by (simp add: encode_separators to_valid.simps width_separators)
  next
    assume "v = 0x2029"
    then show ?thesis unfolding s by (simp add: encode_separators to_valid.simps width_separators)
  qed
qed

text \<open>What is written is read back, with ill-formed bytes replaced.\<close>

lemma unquote_escape: "unquote (escape s @ CHR 0x22 # r) = Some (to_valid s, r)"
proof (induction s rule: escape.induct)
  case (2 c s)
  consider "byte_val c < 128" | "\<not> byte_val c < 128" "utf8_width (c # s) = 0"
    | v where "\<not> byte_val c < 128" "utf8_width (c # s) \<noteq> 0" "take 3 (c # s) = encode_rune v" "v = 0x2028 \<or> v = 0x2029"
    | "\<not> byte_val c < 128" "utf8_width (c # s) \<noteq> 0" "take 3 (c # s) \<noteq> encode_rune 0x2028" "take 3 (c # s) \<noteq> encode_rune 0x2029"
    by metis
  then show ?case
  proof cases
    case 1
    then show ?thesis using "2.IH"(1) by (simp add: escape.simps unquote_escape_ascii to_valid.simps)
  next
    case 2
    then show ?thesis
      using "2.IH"(2) by (simp add: escape.simps unquote_u_escape encode_separators surrogate_def to_valid.simps)
  next
    case (3 v)
    then have "escape (c # s) = u_escape v @ escape (drop 2 s)"
      by (auto simp: escape.simps encode_separators)
    moreover have "unquote (escape (drop 2 s) @ CHR 0x22 # r) = Some (to_valid (drop 2 s), r)"
      using 3 "2.IH"(3,4) by (cases "take 3 (c # s) = encode_rune 0x2028") auto
    ultimately show ?thesis
      using 3 to_valid_separator [OF 3(3,4)] by (auto simp: unquote_u_escape surrogate_def)
  next
    case 4
    let ?w = "utf8_width (c # s)"
    have w: "utf8_width (c # take (?w - 1) s @ t) = ?w" "?w - 1 \<le> length s" for t
      using utf8_width_prefix [OF 4(2)] by blast+
    have "c \<noteq> CHR 0x22" "c \<noteq> CHR 0x5C" using 4(1) by (auto simp: byte_val_def)
    then have "unquote (c # take (?w - 1) s @ t) = prepend (c # take (?w - 1) s) (unquote t)" for t
      using 4(1,2) w by (simp add: unquote.simps(2) [of c])
    then show ?thesis using 4 "2.IH"(5) by (simp add: escape.simps to_valid.simps)
  qed
qed (simp add: unquote.simps)

end
