(* ===== verification/Go_JSON.thy ===== *)
theory Go_JSON
  imports Go_UTF8
begin

text \<open>
  The text format of \<open>encoding/json\<close>: reading a value (\<open>json.Unmarshal\<close> reads the whole input, \<open>Decoder.Decode\<close> the
  first value of it) and writing one (\<open>json.Marshal\<close>; \<open>Encoder.Encode\<close> adds a line break). A value that is
  written is read back, with its strings made well-formed, and every string read is well-formed.
\<close>

section \<open>Values\<close>

datatype json = JNull | JBool bool | JNum bytes | JStr bytes | JArr "json list" | JObj "(bytes \<times> json) list"

section \<open>Reading\<close>

definition is_ws :: "char \<Rightarrow> bool" where
  "is_ws c \<longleftrightarrow> c = CHR '' '' \<or> c = CHR 0x09 \<or> c = CHR 0x0A \<or> c = CHR 0x0D"

definition skip_ws :: "bytes \<Rightarrow> bytes" where
  "skip_ws s = dropWhile is_ws s"

definition is_digit :: "char \<Rightarrow> bool" where
  "is_digit c \<longleftrightarrow> char_digit c \<noteq> None"

text \<open>A number: sign, whole part without a leading zero, fraction, exponent.\<close>

definition scan_exponent :: "bytes \<Rightarrow> bytes \<Rightarrow> (bytes \<times> bytes) option" where
  "scan_exponent p s =
     (case s of
        [] \<Rightarrow> Some (p, [])
      | c # r \<Rightarrow>
          if c = CHR ''e'' \<or> c = CHR ''E'' then
            let sign = (if r \<noteq> [] \<and> (hd r = CHR ''+'' \<or> hd r = CHR ''-'') then [hd r] else []);
                r = drop (length sign) r; ds = takeWhile is_digit r
            in if ds = [] then None else Some (p @ c # sign @ ds, dropWhile is_digit r)
          else Some (p, s))"

definition scan_fraction :: "bytes \<Rightarrow> bytes \<Rightarrow> (bytes \<times> bytes) option" where
  "scan_fraction p s =
     (case s of
        [] \<Rightarrow> Some (p, [])
      | c # r \<Rightarrow>
          if c = CHR ''.'' then
            let ds = takeWhile is_digit r
            in if ds = [] then None else scan_exponent (p @ c # ds) (dropWhile is_digit r)
          else scan_exponent p s)"

definition scan_number :: "bytes \<Rightarrow> (bytes \<times> bytes) option" where
  "scan_number s =
     (let sign = (if s \<noteq> [] \<and> hd s = CHR ''-'' then [hd s] else []); s = drop (length sign) s
      in case s of
           [] \<Rightarrow> None
         | c # r \<Rightarrow>
             if c = CHR ''0'' then scan_fraction (sign @ [c]) r
             else if is_digit c then scan_fraction (sign @ c # takeWhile is_digit r) (dropWhile is_digit r)
             else None)"

definition expect :: "bytes \<Rightarrow> json \<Rightarrow> bytes \<Rightarrow> (json \<times> bytes) option" where
  "expect word j s = (if HasPrefix s word then Some (j, drop (length word) s) else None)"

text \<open>
  The elements of an array and the members of an object, after the opening bracket and given how
  to read one value. The test on the lengths never fails (\<open>parse_value_consumes\<close> below); it bounds the loop.
\<close>

fun parse_elems :: "(bytes \<Rightarrow> (json \<times> bytes) option) \<Rightarrow> bytes \<Rightarrow> (json list \<times> bytes) option" where
  "parse_elems item s =
     (case item s of
        None \<Rightarrow> None
      | Some (j, r) \<Rightarrow>
          (case skip_ws r of
             [] \<Rightarrow> None
           | c # r' \<Rightarrow>
               if c = CHR '']'' then Some ([j], r')
               else if c = CHR '','' \<and> length r' < length s then
                 (case parse_elems item r' of None \<Rightarrow> None | Some (js, t) \<Rightarrow> Some (j # js, t))
               else None))"

definition parse_key :: "bytes \<Rightarrow> (bytes \<times> bytes) option" where
  "parse_key s =
     (case skip_ws s of
        [] \<Rightarrow> None
      | c # r \<Rightarrow>
          if c = CHR 0x22 then
            (case unquote r of
               None \<Rightarrow> None
             | Some (k, r) \<Rightarrow> (case skip_ws r of [] \<Rightarrow> None | c # r \<Rightarrow> if c = CHR '':'' then Some (k, r) else None))
          else None)"

fun parse_members :: "(bytes \<Rightarrow> (json \<times> bytes) option) \<Rightarrow> bytes \<Rightarrow> ((bytes \<times> json) list \<times> bytes) option" where
  "parse_members item s =
     (case parse_key s of
        None \<Rightarrow> None
      | Some (k, r) \<Rightarrow>
          (case item r of
             None \<Rightarrow> None
           | Some (j, r) \<Rightarrow>
               (case skip_ws r of
                  [] \<Rightarrow> None
                | c # r' \<Rightarrow>
                    if c = CHR ''}'' then Some ([(k, j)], r')
                    else if c = CHR '','' \<and> length r' < length s then
                      (case parse_members item r' of None \<Rightarrow> None | Some (ms, t) \<Rightarrow> Some ((k, j) # ms, t))
                    else None)))"

declare parse_elems.simps [simp del] parse_members.simps [simp del]

definition empty_or :: "char \<Rightarrow> ('a list \<Rightarrow> json) \<Rightarrow> (bytes \<Rightarrow> ('a list \<times> bytes) option) \<Rightarrow> bytes \<Rightarrow> (json \<times> bytes) option" where
  "empty_or close build loop r =
     (if skip_ws r \<noteq> [] \<and> hd (skip_ws r) = close then Some (build [], tl (skip_ws r))
      else case loop r of None \<Rightarrow> None | Some (xs, t) \<Rightarrow> Some (build xs, t))"

text \<open>A value, with at most \<open>d\<close> brackets open at once.\<close>

fun parse_value :: "nat \<Rightarrow> bytes \<Rightarrow> (json \<times> bytes) option" where
  "parse_value d s =
     (case skip_ws s of
        [] \<Rightarrow> None
      | c # r \<Rightarrow>
          if c = CHR 0x22 then (case unquote r of None \<Rightarrow> None | Some (t, r) \<Rightarrow> Some (JStr t, r))
          else if c = CHR ''['' then (if d = 0 then None else empty_or (CHR '']'') JArr (parse_elems (parse_value (d - 1))) r)
          else if c = CHR ''{'' then (if d = 0 then None else empty_or (CHR ''}'') JObj (parse_members (parse_value (d - 1))) r)
          else if c = CHR ''t'' then expect ''rue'' (JBool True) r
          else if c = CHR ''f'' then expect ''alse'' (JBool False) r
          else if c = CHR ''n'' then expect ''ull'' JNull r
          else (case scan_number (c # r) of None \<Rightarrow> None | Some (l, r) \<Rightarrow> Some (JNum l, r)))"

declare parse_value.simps [simp del]

abbreviation maxNestingDepth :: nat where "maxNestingDepth \<equiv> 10000"

definition json_parse :: "bytes \<Rightarrow> json option" where
  "json_parse s =
     (case parse_value maxNestingDepth s of
        None \<Rightarrow> None
      | Some (j, r) \<Rightarrow> if skip_ws r = [] then Some j else None)"

definition json_first :: "bytes \<Rightarrow> json option" where
  "json_first s = map_option fst (parse_value maxNestingDepth s)"

section \<open>Writing\<close>

definition quote :: "bytes \<Rightarrow> bytes" where
  "quote s = CHR 0x22 # escape s @ [CHR 0x22]"

fun print :: "json \<Rightarrow> bytes" and print_elems :: "json list \<Rightarrow> bytes" and print_members :: "(bytes \<times> json) list \<Rightarrow> bytes" where
  "print JNull = ''null''"
| "print (JBool b) = (if b then ''true'' else ''false'')"
| "print (JNum l) = l"
| "print (JStr s) = quote s"
| "print (JArr js) = CHR ''['' # print_elems js @ '']''"
| "print (JObj ms) = CHR ''{'' # print_members ms @ ''}''"
| "print_elems [] = []"
| "print_elems (j # js) = print j @ (if js = [] then [] else CHR '','' # print_elems js)"
| "print_members [] = []"
| "print_members ((k, j) # ms) = quote k @ CHR '':'' # print j @ (if ms = [] then [] else CHR '','' # print_members ms)"

section \<open>Reading consumes the text and gives well-formed strings\<close>

fun strings_ok :: "json \<Rightarrow> bool" where
  "strings_ok (JStr s) = valid_utf8 s"
| "strings_ok (JArr js) = list_all strings_ok js"
| "strings_ok (JObj ms) = list_all (\<lambda>m. valid_utf8 (fst m) \<and> strings_ok (snd m)) ms"
| "strings_ok _ = True"

text \<open>What a reader of values promises.\<close>

definition good_reader :: "(bytes \<Rightarrow> (json \<times> bytes) option) \<Rightarrow> bool" where
  "good_reader item \<longleftrightarrow> (\<forall>s j r. item s = Some (j, r) \<longrightarrow> length r < length s \<and> strings_ok j)"

lemma good_readerD: "good_reader item \<Longrightarrow> item s = Some (j, r) \<Longrightarrow> length r < length s \<and> strings_ok j"
  by (auto simp: good_reader_def)

lemma length_skip_ws: "length (skip_ws s) \<le> length s"
  by (simp add: skip_ws_def length_dropWhile_le)

lemma skip_ws_Cons: "skip_ws s = c # r \<Longrightarrow> length r < length s"
  using length_skip_ws [of s] by simp

lemma parse_key_sound: "parse_key s = Some (k, r) \<Longrightarrow> length r < length s \<and> valid_utf8 k"
  by (auto simp: parse_key_def split: list.splits if_splits option.splits dest!: skip_ws_Cons unquote_sound)

lemma parse_elems_step:
  assumes "parse_elems item s = Some (js, r)"
  obtains j t c t' where "item s = Some (j, t)" "skip_ws t = c # t'"
    "js = [j] \<and> r = t' \<or> (\<exists>js'. parse_elems item t' = Some (js', r) \<and> js = j # js')"
  using assms by (subst (asm) parse_elems.simps) (auto split: option.splits list.splits if_splits)

lemma parse_elems_sound:
  assumes "good_reader item"
  shows "parse_elems item s = Some (js, r) \<Longrightarrow> length r < length s \<and> list_all strings_ok js"
proof (induction s arbitrary: js r rule: length_induct)
  case (1 s)
  from 1(2) obtain j t c t' where v: "item s = Some (j, t)" "skip_ws t = c # t'"
    "js = [j] \<and> r = t' \<or> (\<exists>js'. parse_elems item t' = Some (js', r) \<and> js = j # js')"
    by (rule parse_elems_step)
  have l: "length t' < length s" "strings_ok j"
    using good_readerD [OF assms v(1)] skip_ws_Cons [OF v(2)] by simp_all
  from v(3) show ?case using l 1(1) by (auto dest: order_less_trans)
qed

lemma parse_members_step:
  assumes "parse_members item s = Some (ms, r)"
  obtains k u j t c t' where "parse_key s = Some (k, u)" "item u = Some (j, t)" "skip_ws t = c # t'"
    "ms = [(k, j)] \<and> r = t' \<or> (\<exists>ms'. parse_members item t' = Some (ms', r) \<and> ms = (k, j) # ms')"
  using assms by (subst (asm) parse_members.simps) (auto split: option.splits list.splits if_splits)

lemma parse_members_sound:
  assumes "good_reader item"
  shows "parse_members item s = Some (ms, r) \<Longrightarrow>
    length r < length s \<and> list_all (\<lambda>m. valid_utf8 (fst m) \<and> strings_ok (snd m)) ms"
proof (induction s arbitrary: ms r rule: length_induct)
  case (1 s)
  from 1(2) obtain k u j t c t' where v: "parse_key s = Some (k, u)" "item u = Some (j, t)" "skip_ws t = c # t'"
    "ms = [(k, j)] \<and> r = t' \<or> (\<exists>ms'. parse_members item t' = Some (ms', r) \<and> ms = (k, j) # ms')"
    by (rule parse_members_step)
  have l: "length t' < length s" "strings_ok j" "valid_utf8 k"
    using parse_key_sound [OF v(1)] good_readerD [OF assms v(2)] skip_ws_Cons [OF v(3)] by simp_all
  from v(4) show ?case using l 1(1) by (auto dest: order_less_trans)
qed

text \<open>A number is never empty, so reading it consumes the text.\<close>

lemma scan_exponent_length: "scan_exponent p s = Some (l, r) \<Longrightarrow> length r \<le> length s"
  by (auto simp: scan_exponent_def Let_def split: list.splits if_splits intro: le_SucI order_trans [OF length_dropWhile_le])

lemma scan_fraction_length: "scan_fraction p s = Some (l, r) \<Longrightarrow> length r \<le> length s"
  by (auto simp: scan_fraction_def Let_def split: list.splits if_splits dest!: scan_exponent_length
      intro: le_SucI order_trans [OF _ length_dropWhile_le])

lemma scan_number_length: "scan_number s = Some (l, r) \<Longrightarrow> length r < length s"
  by (auto simp: scan_number_def Let_def drop_Suc neq_Nil_conv split: list.splits if_splits dest!: scan_fraction_length
      intro: le_less_trans [OF order_trans [OF _ length_dropWhile_le]])

lemma expect_sound: "expect w j s = Some (j', r) \<Longrightarrow> length r \<le> length s \<and> j' = j"
  by (auto simp: expect_def split: if_splits)

lemma empty_or_sound:
  assumes "empty_or close build loop s = Some (j, r)" "\<And>xs. loop s = Some (xs, r) \<Longrightarrow> length r < length s \<and> P xs" "P []"
  shows "length r \<le> length s \<and> (\<exists>xs. j = build xs \<and> P xs)"
  using assms length_skip_ws [of s] by (auto simp: empty_or_def split: if_splits option.splits)

lemma parse_value_cases:
  assumes "parse_value d s = Some (j, r)"
  obtains c u where "skip_ws s = c # u"
    "(\<exists>t. unquote u = Some (t, r) \<and> j = JStr t) \<or>
     d \<noteq> 0 \<and> empty_or (CHR '']'') JArr (parse_elems (parse_value (d - 1))) u = Some (j, r) \<or>
     d \<noteq> 0 \<and> empty_or (CHR ''}'') JObj (parse_members (parse_value (d - 1))) u = Some (j, r) \<or>
     (\<exists>w b. expect w b u = Some (j, r) \<and> strings_ok b) \<or>
     (\<exists>l. scan_number (c # u) = Some (l, r) \<and> j = JNum l)"
proof (cases "skip_ws s")
  case Nil
  with assms show ?thesis by (simp add: parse_value.simps [of d s])
next
  case (Cons c u)
  have ok: "strings_ok (JBool b)" "strings_ok JNull" for b by simp_all
  show ?thesis
    using assms that [OF Cons] unfolding parse_value.simps [of d s] Cons list.case
    by (simp split: if_splits option.splits prod.splits) (blast intro: ok)+
qed

lemma parse_value_good: "good_reader (parse_value d)"
proof (induction d rule: less_induct)
  case (less d)
  have "length r < length s \<and> strings_ok j" if p: "parse_value d s = Some (j, r)" for s j r
  proof -
    obtain c u where u: "skip_ws s = c # u" and
      cs: "(\<exists>t. unquote u = Some (t, r) \<and> j = JStr t) \<or>
        d \<noteq> 0 \<and> empty_or (CHR '']'') JArr (parse_elems (parse_value (d - 1))) u = Some (j, r) \<or>
        d \<noteq> 0 \<and> empty_or (CHR ''}'') JObj (parse_members (parse_value (d - 1))) u = Some (j, r) \<or>
        (\<exists>w b. expect w b u = Some (j, r) \<and> strings_ok b) \<or>
        (\<exists>l. scan_number (c # u) = Some (l, r) \<and> j = JNum l)"
      using p by (rule parse_value_cases)
    have g: "d \<noteq> 0 \<Longrightarrow> good_reader (parse_value (d - 1))" using less.IH by simp
    have l: "length u < length s" "length (c # u) \<le> length s"
      using skip_ws_Cons [OF u] length_skip_ws [of s] u by simp_all
    have "length r < length (c # u) \<and> strings_ok j"
      using cs
      by (elim disjE exE conjE)
        (use unquote_sound empty_or_sound [OF _ parse_elems_sound [OF g]] empty_or_sound [OF _ parse_members_sound [OF g]] in
          \<open>fastforce dest: expect_sound scan_number_length\<close>)+
    then show ?thesis using l by simp
  qed
  then show ?case by (auto simp: good_reader_def)
qed

text \<open>The length tests of the two loops never fail.\<close>

lemma parse_value_consumes: "parse_value d s = Some (j, r) \<Longrightarrow> skip_ws r = c # r' \<Longrightarrow> length r' < length s"
  using good_readerD [OF parse_value_good] skip_ws_Cons by (meson order_less_trans)

lemma json_strings_ok: "json_parse s = Some j \<Longrightarrow> strings_ok j" "json_first s = Some j \<Longrightarrow> strings_ok j"
  using good_readerD [OF parse_value_good]
  by (auto simp: json_parse_def json_first_def split: option.splits if_splits)

section \<open>What is written is read back\<close>

text \<open>A whole number as \<open>strconv\<close> prints it: no leading zero.\<close>

definition integral :: "bytes \<Rightarrow> bool" where
  "integral l \<longleftrightarrow>
     (let ds = (if l \<noteq> [] \<and> hd l = CHR ''-'' then tl l else l)
      in ds \<noteq> [] \<and> list_all is_digit ds \<and> (hd ds = CHR ''0'' \<longrightarrow> tl ds = []))"

text \<open>The values the encoders build: whole numbers, and brackets nested at most \<open>d\<close> deep.\<close>

fun writable :: "nat \<Rightarrow> json \<Rightarrow> bool" where
  "writable d (JNum l) = integral l"
| "writable d (JArr js) = (d \<noteq> 0 \<and> list_all (writable (d - 1)) js)"
| "writable d (JObj ms) = (d \<noteq> 0 \<and> list_all (\<lambda>m. writable (d - 1) (snd m)) ms)"
| "writable d _ = True"

fun clean :: "json \<Rightarrow> json" where
  "clean (JStr s) = JStr (to_valid s)"
| "clean (JArr js) = JArr (map clean js)"
| "clean (JObj ms) = JObj (map (\<lambda>m. (to_valid (fst m), clean (snd m))) ms)"
| "clean j = j"

definition stops :: "bytes \<Rightarrow> bool" where
  "stops r \<longleftrightarrow> r = [] \<or> \<not> is_digit (hd r) \<and> hd r \<noteq> CHR ''.'' \<and> hd r \<noteq> CHR ''e'' \<and> hd r \<noteq> CHR ''E''"

lemma stops_marks [simp]: "stops (CHR '','' # r)" "stops (CHR '']'' # r)" "stops (CHR ''}'' # r)" "stops []"
  by (simp_all add: stops_def is_digit_def char_digit_def)

lemma digits_then:
  assumes "list_all is_digit ds" "stops r"
  shows "takeWhile is_digit (ds @ r) = ds" "dropWhile is_digit (ds @ r) = r"
proof -
  have "takeWhile is_digit r = []" "dropWhile is_digit r = r"
    using assms(2) by (cases r; auto simp: stops_def)+
  then show "takeWhile is_digit (ds @ r) = ds" "dropWhile is_digit (ds @ r) = r"
    using assms(1) by (auto simp: list_all_iff takeWhile_append dropWhile_append takeWhile_eq_all_conv dropWhile_eq_Nil_conv)
qed

lemma scan_fraction_stops: "stops r \<Longrightarrow> scan_fraction p r = Some (p, r)"
  by (auto simp: scan_fraction_def scan_exponent_def stops_def split: list.split)

lemma is_digit_marks [simp]:
  "\<not> is_digit (CHR ''-'')" "\<not> is_digit (CHR 0x22)" "\<not> is_digit (CHR ''['')" "\<not> is_digit (CHR ''{'')" "\<not> is_digit (CHR ''t'')"
  "\<not> is_digit (CHR ''f'')" "\<not> is_digit (CHR ''n'')" "\<not> is_digit (CHR '']'')" "\<not> is_digit (CHR ''}'')"
  by (simp_all add: is_digit_def char_digit_def)

lemma scan_digits:
  assumes "ds \<noteq> []" "list_all is_digit ds" "hd ds = CHR ''0'' \<longrightarrow> tl ds = []" "stops r"
  shows "(case ds @ r of [] \<Rightarrow> None
     | c # u \<Rightarrow> if c = CHR ''0'' then scan_fraction (sign @ [c]) u
         else if is_digit c then scan_fraction (sign @ c # takeWhile is_digit u) (dropWhile is_digit u)
         else None) = Some (sign @ ds, r)"
  using assms by (cases ds) (auto simp: digits_then scan_fraction_stops)

lemma scan_number_integral:
  assumes "integral l" "stops r"
  shows "scan_number (l @ r) = Some (l, r)"
proof (cases "l \<noteq> [] \<and> hd l = CHR ''-''")
  case True
  then obtain ds where l: "l = CHR ''-'' # ds" by (cases l) auto
  then show ?thesis using assms scan_digits [of ds r "''-''"] by (simp add: integral_def scan_number_def)
next
  case False
  then have "l \<noteq> []" "hd l \<noteq> CHR ''-''" using assms(1) by (auto simp: integral_def)
  then show ?thesis using assms scan_digits [of l r "[]"] by (simp add: integral_def scan_number_def)
qed

lemma integral_start:
  assumes "integral l"
  obtains c u where "l = c # u" "is_digit c \<or> c = CHR ''-''"
  using assms by (cases l) (auto simp: integral_def split: if_splits)

lemma is_digit_range: "is_digit c \<longleftrightarrow> 48 \<le> byte_val c \<and> byte_val c \<le> 57"
  by (auto simp: is_digit_def char_digit_def byte_val_def Let_def)

lemma print_start:
  assumes "writable d j"
  obtains c u where "print j = c # u" "\<not> is_ws c" "c \<noteq> CHR '']''" "c \<noteq> CHR ''}''"
proof (cases j)
  case (JNum l)
  then obtain c u where c: "l = c # u" "is_digit c \<or> c = CHR ''-''" using assms by (auto elim: integral_start)
  then have "\<not> is_ws c" "c \<noteq> CHR '']''" "c \<noteq> CHR ''}''" by (auto simp: is_ws_def is_digit_range byte_val_def)
  then show ?thesis using that c JNum by simp
next
  case (JBool b)
  then show ?thesis using that by (cases b) (auto simp: is_ws_def)
qed (use that in \<open>auto simp: is_ws_def quote_def\<close>)

lemma skip_ws_Cons_id: "\<not> is_ws c \<Longrightarrow> skip_ws (c # s) = c # s"
  by (simp add: skip_ws_def)

lemma skip_ws_marks [simp]:
  "skip_ws (CHR '','' # s) = CHR '','' # s" "skip_ws (CHR '']'' # s) = CHR '']'' # s" "skip_ws (CHR ''}'' # s) = CHR ''}'' # s"
  "skip_ws (CHR '':'' # s) = CHR '':'' # s" "skip_ws (CHR 0x22 # s) = CHR 0x22 # s" "skip_ws [] = []"
  by (simp_all add: skip_ws_def is_ws_def)

lemma parse_key_quote: "parse_key (quote k @ CHR '':'' # s) = Some (to_valid k, s)"
  using unquote_escape [of k] by (simp add: parse_key_def quote_def)

lemma parse_value_number:
  assumes "integral l" "stops r"
  shows "parse_value d (l @ r) = Some (JNum l, r)"
proof -
  obtain c u where c: "l = c # u" "is_digit c \<or> c = CHR ''-''" using assms(1) by (rule integral_start)
  then have "\<not> is_ws c" "c \<noteq> CHR 0x22" "c \<noteq> CHR ''[''" "c \<noteq> CHR ''{''" "c \<noteq> CHR ''t''" "c \<noteq> CHR ''f''" "c \<noteq> CHR ''n''"
    by (auto simp: is_ws_def is_digit_range byte_val_def)
  then show ?thesis
    using scan_number_integral [OF assms] c(1) by (simp add: parse_value.simps [of d] skip_ws_Cons_id)
qed

lemma parse_value_string: "parse_value d (quote s @ r) = Some (JStr (to_valid s), r)"
  using unquote_escape [of s] by (simp add: parse_value.simps [of d] quote_def)

lemma parse_elems_Cons:
  assumes "item (p @ t) = Some (j, t)" "t = c # r" "\<not> is_ws c"
  shows "parse_elems item (p @ t) =
    (if c = CHR '']'' then Some ([j], r)
     else if c = CHR '','' then (case parse_elems item r of None \<Rightarrow> None | Some (js, t) \<Rightarrow> Some (j # js, t))
     else None)"
  using assms by (subst parse_elems.simps) (simp add: skip_ws_Cons_id)

lemma parse_members_Cons:
  assumes "item (p @ t) = Some (j, t)" "t = c # r" "\<not> is_ws c"
  shows "parse_members item (quote k @ CHR '':'' # p @ t) =
    (if c = CHR ''}'' then Some ([(to_valid k, j)], r)
     else if c = CHR '','' then (case parse_members item r of None \<Rightarrow> None | Some (ms, t) \<Rightarrow> Some ((to_valid k, j) # ms, t))
     else None)"
  using assms by (subst parse_members.simps) (simp add: skip_ws_Cons_id parse_key_quote)

lemma empty_or_loop:
  assumes "skip_ws r = c # u" "c \<noteq> close" "loop r = Some (xs, t)"
  shows "empty_or close build loop r = Some (build xs, t)"
  using assms by (simp add: empty_or_def)

lemma parse_value_bracket:
  assumes "d \<noteq> 0"
  shows "parse_value d (CHR ''['' # r) = empty_or (CHR '']'') JArr (parse_elems (parse_value (d - 1))) r"
    "parse_value d (CHR ''{'' # r) = empty_or (CHR ''}'') JObj (parse_members (parse_value (d - 1))) r"
  using assms by (simp_all add: parse_value.simps [of d] skip_ws_Cons_id is_ws_def)

lemma print_members_start: "ms \<noteq> [] \<Longrightarrow> \<exists>u. print_members ms = CHR 0x22 # u"
  by (cases ms rule: print_members.cases) (auto simp: quote_def)

lemma print_elems_start:
  assumes "js \<noteq> []" "list_all (writable d) js"
  shows "\<exists>c u. print_elems js = c # u \<and> \<not> is_ws c \<and> c \<noteq> CHR '']''"
proof (cases js)
  case (Cons j js')
  then obtain c u where "print j = c # u" "\<not> is_ws c" "c \<noteq> CHR '']''" using assms(2) by (auto elim: print_start)
  then show ?thesis using Cons by simp
qed (use assms in simp)

theorem parse_print:
  "writable d j \<Longrightarrow> stops r \<Longrightarrow> parse_value d (print j @ r) = Some (clean j, r)"
  "js \<noteq> [] \<Longrightarrow> list_all (writable d) js \<Longrightarrow>
     parse_elems (parse_value d) (print_elems js @ CHR '']'' # r) = Some (map clean js, r)"
  "ms \<noteq> [] \<Longrightarrow> list_all (\<lambda>m. writable d (snd m)) ms \<Longrightarrow>
     parse_members (parse_value d) (print_members ms @ CHR ''}'' # r) = Some (map (\<lambda>m. (to_valid (fst m), clean (snd m))) ms, r)"
proof (induction j and js and ms arbitrary: d r and d r and d r rule: print_print_elems_print_members.induct)
  case 1
  show ?case by (simp add: parse_value.simps [of d] skip_ws_Cons_id is_ws_def expect_def HasPrefix_def)
next
  case (2 b)
  show ?case by (cases b) (simp_all add: parse_value.simps [of d] skip_ws_Cons_id is_ws_def expect_def HasPrefix_def)
next
  case (3 l)
  then show ?case by (simp add: parse_value_number)
next
  case (4 s)
  show ?case by (simp add: parse_value_string)
next
  case (5 js)
  have "empty_or (CHR '']'') JArr (parse_elems (parse_value (d - 1))) (print_elems js @ CHR '']'' # r) = Some (JArr (map clean js), r)"
  proof (cases "js = []")
    case False
    then obtain c u where c: "print_elems js = c # u" "\<not> is_ws c" "c \<noteq> CHR '']''"
      using "5.prems"(1) print_elems_start [OF False, of "d - 1"] by auto
    show ?thesis
      by (rule empty_or_loop [where c = c and u = "u @ CHR '']'' # r"])
        (use c "5.prems" "5.IH" [OF False, of "d - 1" r] in \<open>simp_all add: skip_ws_Cons_id\<close>)
  qed (simp add: empty_or_def)
  then show ?case using "5.prems" parse_value_bracket(1) [of d] by simp
next
  case (6 ms)
  have "empty_or (CHR ''}'') JObj (parse_members (parse_value (d - 1))) (print_members ms @ CHR ''}'' # r) =
      Some (JObj (map (\<lambda>m. (to_valid (fst m), clean (snd m))) ms), r)"
  proof (cases "ms = []")
    case False
    then obtain u where u: "print_members ms = CHR 0x22 # u" using print_members_start by blast
    show ?thesis
      by (rule empty_or_loop [where c = "CHR 0x22" and u = "u @ CHR ''}'' # r"])
        (use u "6.prems" "6.IH" [OF False, of "d - 1" r] in simp_all)
  qed (simp add: empty_or_def)
  then show ?case using "6.prems" parse_value_bracket(2) [of d] by simp
next
  case (8 j js)
  have w: "\<not> is_ws (CHR '','')" "\<not> is_ws (CHR '']'')" by (simp_all add: is_ws_def)
  show ?case
  proof (cases "js = []")
    case True
    then show ?thesis using "8.prems" "8.IH"(1) [of d "CHR '']'' # r"]
        parse_elems_Cons [where item = "parse_value d" and p = "print j" and j = "clean j", OF _ refl w(2), of r] by simp
  next
    case False
    then show ?thesis using "8.prems" "8.IH"(1) [of d "CHR '','' # print_elems js @ CHR '']'' # r"] "8.IH"(2) [of d r]
        parse_elems_Cons [where item = "parse_value d" and p = "print j" and j = "clean j", OF _ refl w(1), of "print_elems js @ CHR '']'' # r"] by simp
  qed
next
  case (10 k j ms)
  have w: "\<not> is_ws (CHR '','')" "\<not> is_ws (CHR ''}'')" by (simp_all add: is_ws_def)
  show ?case
  proof (cases "ms = []")
    case True
    then show ?thesis using "10.prems" "10.IH"(1) [of d "CHR ''}'' # r"]
        parse_members_Cons [where item = "parse_value d" and p = "print j" and j = "clean j", OF _ refl w(2), of r k] by simp
  next
    case False
    then show ?thesis using "10.prems" "10.IH"(1) [of d "CHR '','' # print_members ms @ CHR ''}'' # r"] "10.IH"(2) [of d r]
        parse_members_Cons [where item = "parse_value d" and p = "print j" and j = "clean j", OF _ refl w(1), of "print_members ms @ CHR ''}'' # r" k] by simp
  qed
qed simp_all

lemma json_parse_print:
  assumes "writable maxNestingDepth j"
  shows "json_parse (print j) = Some (clean j)" "json_first (print j @ [CHR 0x0A]) = Some (clean j)" "json_first (print j) = Some (clean j)"
proof -
  have "stops [CHR 0x0A]" by (simp add: stops_def is_digit_def char_digit_def)
  then show "json_parse (print j) = Some (clean j)" "json_first (print j @ [CHR 0x0A]) = Some (clean j)" "json_first (print j) = Some (clean j)"
    using parse_print(1) [OF assms, of "[]"] parse_print(1) [OF assms, of "[CHR 0x0A]"] by (simp_all add: json_parse_def json_first_def)
qed

section \<open>What is written is well-formed\<close>

lemma valid_Cons: "byte_val c < 128 \<Longrightarrow> valid_utf8 s \<Longrightarrow> valid_utf8 (c # s)"
  by (simp add: valid_utf8.simps)

lemma valid_u_escape: "valid_utf8 (u_escape v)"
proof (rule valid_ascii, rule ballI)
  have h: "n < 16 \<Longrightarrow> byte_val (hextable n) < 128" for n by (simp add: hextable_def byte_val_def)
  fix c assume "c \<in> set (u_escape v)"
  then show "byte_val c < 128" using h by (auto simp: u_escape_def byte_val_def)
qed

lemma valid_escape_ascii:
  assumes "byte_val c < 128"
  shows "valid_utf8 (escape_ascii c)"
proof -
  have "byte_val (CHR 0x5C) < 128" "byte_val (CHR ''b'') < 128" "byte_val (CHR ''f'') < 128" "byte_val (CHR ''n'') < 128"
    "byte_val (CHR ''r'') < 128" "byte_val (CHR ''t'') < 128" by (simp_all add: byte_val_def)
  then show ?thesis unfolding escape_ascii_def using assms by (simp add: valid_u_escape valid_Cons)
qed

lemma valid_escape: "valid_utf8 (escape s)"
proof (induction s rule: escape.induct)
  case (2 c s)
  then show ?case
    using valid_utf8_append valid_escape_ascii [of c] valid_u_escape valid_utf8_char [of c s] by (simp add: escape.simps(2))
      (metis append_Cons)
qed simp

lemma valid_quote: "valid_utf8 (quote s)"
  unfolding quote_def by (intro valid_Cons valid_utf8_append valid_escape) (simp_all add: byte_val_def valid_Cons)

lemma integral_ascii: "integral l \<Longrightarrow> valid_utf8 l"
  by (intro valid_ascii)
    (auto simp: integral_def list_all_iff is_digit_range byte_val_def neq_Nil_conv Let_def split: if_splits)

lemma valid_print:
  "writable d j \<Longrightarrow> valid_utf8 (print j)"
  "list_all (writable d) js \<Longrightarrow> valid_utf8 (print_elems js)"
  "list_all (\<lambda>m. writable d (snd m)) ms \<Longrightarrow> valid_utf8 (print_members ms)"
  by (induction j and js and ms arbitrary: d and d and d rule: print_print_elems_print_members.induct)
    (auto simp: integral_ascii valid_quote byte_val_def intro!: valid_Cons valid_utf8_append)

end
