(* ===== verification/Go_Base64.thy ===== *)
theory Go_Base64
  imports Go_Lib
begin

text \<open>
  \<open>base64.StdEncoding\<close> read back: \<open>Decode\<close>, which skips line breaks, wants whole groups of four characters with
  their padding at the very end, and does not look at the unused bits of the last group. Decoding what
  was encoded gives the bytes again.
\<close>

definition base64_index :: "char \<Rightarrow> nat option" where
  "base64_index c =
     (let n = byte_val c in
      if 65 \<le> n \<and> n \<le> 90 then Some (n - 65)
      else if 97 \<le> n \<and> n \<le> 122 then Some (n - 71)
      else if 48 \<le> n \<and> n \<le> 57 then Some (n + 4)
      else if c = CHR ''+'' then Some 62 else if c = CHR ''/'' then Some 63 else None)"

text \<open>The bytes of a group: three, or two or one with the padding.\<close>

definition base64_group :: "char \<Rightarrow> char \<Rightarrow> char \<Rightarrow> char \<Rightarrow> bool \<Rightarrow> bytes option" where
  "base64_group a b c d final =
     (case (base64_index a, base64_index b) of
        (Some i, Some j) \<Rightarrow>
          (case (base64_index c, base64_index d) of
             (Some k, Some l) \<Rightarrow>
               Some [char_of (i * 4 + j div 16), char_of (j mod 16 * 16 + k div 4), char_of (k mod 4 * 64 + l)]
           | (Some k, None) \<Rightarrow>
               if d = CHR ''='' \<and> final then Some [char_of (i * 4 + j div 16), char_of (j mod 16 * 16 + k div 4)] else None
           | (None, _) \<Rightarrow>
               if c = CHR ''='' \<and> d = CHR ''='' \<and> final then Some [char_of (i * 4 + j div 16)] else None)
      | _ \<Rightarrow> None)"

fun base64_groups :: "string \<Rightarrow> bytes option" where
  "base64_groups [] = Some []"
| "base64_groups (a # b # c # d # rest) =
     (case base64_group a b c d (rest = []) of
        None \<Rightarrow> None
      | Some x \<Rightarrow> map_option (\<lambda>y. x @ y) (base64_groups rest))"
| "base64_groups _ = None"

definition base64_Decode :: "string \<Rightarrow> bytes option" where
  "base64_Decode s = base64_groups (filter (\<lambda>c. c \<noteq> CHR 0x0A \<and> c \<noteq> CHR 0x0D) s)"

lemma base64_alphabet_index: "map base64_index base64_alphabet = map Some [0..<64]"
  by (simp add: base64_alphabet_def base64_index_def byte_val_def upt_rec [of 0] upt_rec [of "Suc 0"] numeral_2_eq_2 [symmetric])

lemma base64_alphabet_set: "CHR 0x0A \<notin> set base64_alphabet" "CHR 0x0D \<notin> set base64_alphabet" "length base64_alphabet = 64"
  by (simp_all add: base64_alphabet_def)

lemma base64_char_ok [simp]:
  assumes "n < 64"
  shows "base64_index (base64_char n) = Some n" "base64_char n \<noteq> CHR 0x0A" "base64_char n \<noteq> CHR 0x0D"
proof -
  have n: "n < length base64_alphabet" using assms base64_alphabet_set(3) by simp
  then show "base64_index (base64_char n) = Some n"
    using arg_cong [OF base64_alphabet_index, of "\<lambda>xs. xs ! n"] assms by (simp add: base64_char_def)
  show "base64_char n \<noteq> CHR 0x0A" "base64_char n \<noteq> CHR 0x0D"
    using nth_mem [OF n] base64_alphabet_set(1,2) by (auto simp: base64_char_def)
qed

lemma byte_val_bound [simp]: "byte_val c < 256"
  by (simp add: byte_val_def)

lemma base64_pad [simp]: "base64_index (CHR ''='') = None"
  by (simp add: base64_index_def byte_val_def)

text \<open>Bytes as sextets and back.\<close>

lemma mod_div_digits: "0 < b \<Longrightarrow> (m :: nat) mod (b * c) div b = m div b mod c"
  by (simp add: mod_mult2_eq)

lemma sextets:
  fixes n :: nat
  shows "n div 262144 * 4 + n div 4096 mod 64 div 16 = n div 65536"
    "n div 4096 mod 64 mod 16 * 16 + n div 64 mod 64 div 4 = n div 256 mod 256"
    "n div 64 mod 64 mod 4 * 64 + n mod 64 = n mod 256"
proof -
  have q: "n div 262144 = n div 65536 div 4" "n div 65536 = n div 4096 div 16" "n div 4096 = n div 256 div 16" "n div 256 = n div 64 div 4"
    by (simp_all flip: div_mult2_eq)
  show "n div 262144 * 4 + n div 4096 mod 64 div 16 = n div 65536"
    using mod_div_digits [of 16 "n div 4096" 4] unfolding q(1) by (simp flip: q(2))
  have "n div 4096 mod 64 mod 16 = n div 256 div 16 mod 16" by (simp add: mod_mod_cancel flip: q(3))
  moreover have "n div 64 mod 64 div 4 = n div 256 mod 16" using mod_div_digits [of 4 "n div 64" 16] by (simp flip: q(4))
  moreover have "n div 256 mod 256 = n div 256 div 16 mod 16 * 16 + n div 256 mod 16"
    using mod_mult2_eq [of "n div 256" 16 16] by simp
  ultimately show "n div 4096 mod 64 mod 16 * 16 + n div 64 mod 64 div 4 = n div 256 mod 256" by simp
  have "n div 64 mod 64 mod 4 = n div 64 mod 4" by (simp add: mod_mod_cancel)
  then show "n div 64 mod 64 mod 4 * 64 + n mod 64 = n mod 256" using mod_mult2_eq [of n 64 4] by simp
qed

lemma three_bytes:
  fixes x y z :: nat
  assumes "x < 256" "y < 256" "z < 256"
  shows "(x * 65536 + y * 256 + z) div 65536 = x" "(x * 65536 + y * 256 + z) div 256 mod 256 = y" "(x * 65536 + y * 256 + z) mod 256 = z"
proof -
  let ?m = "x * 256 + y"
  have n: "x * 65536 + y * 256 + z = ?m * 256 + z" by simp
  have q: "(?m * 256 + z) div 256 = ?m" "(?m * 256 + z) mod 256 = z" using assms(3) by (simp, metis mod_less mod_mult_self3)
  then have "(?m * 256 + z) div 65536 = ?m div 256" using div_mult2_eq [of "?m * 256 + z" 256 256] by simp
  then show "(x * 65536 + y * 256 + z) div 65536 = x" "(x * 65536 + y * 256 + z) div 256 mod 256 = y" "(x * 65536 + y * 256 + z) mod 256 = z"
    unfolding n q using assms(2) by simp_all
qed

lemma char_of_byte: "char_of (byte_val c) = c"
  by (simp add: byte_val_def)

lemma base64_char_mem: "n < 64 \<Longrightarrow> base64_char n \<in> set base64_alphabet"
  by (simp add: base64_char_def base64_alphabet_set(3))

lemma encoded_chars: "set (base64_EncodeToString s) \<subseteq> insert (CHR ''='') (set base64_alphabet)"
proof (induction s rule: base64_EncodeToString.induct)
  case (2 a)
  have "byte_val a div 4 < 64" using byte_val_bound [of a] by linarith
  then show ?case by (simp add: base64_char_mem)
next
  case (3 a b)
  have "(byte_val a * 256 + byte_val b) * 4 div 4096 < 64"
    by (rule less_mult_imp_div_less) (use byte_val_bound [of a] byte_val_bound [of b] in \<open>unfold distrib_right, linarith\<close>)
  then show ?case by (simp add: Let_def base64_char_mem)
next
  case (4 a b c rest)
  have "(byte_val a * 65536 + byte_val b * 256 + byte_val c) div 262144 < 64"
    by (rule less_mult_imp_div_less) (use byte_val_bound [of a] byte_val_bound [of b] byte_val_bound [of c] in linarith)
  then show ?case using 4 by (simp add: Let_def base64_char_mem)
qed simp

lemma encoded_no_breaks: "filter (\<lambda>c. c \<noteq> CHR 0x0A \<and> c \<noteq> CHR 0x0D) (base64_EncodeToString s) = base64_EncodeToString s"
  using encoded_chars [of s] base64_alphabet_set(1,2) by (intro filter_True) auto

lemma encoded_ascii: "c \<in> set (base64_EncodeToString s) \<Longrightarrow> byte_val c < 128"
proof -
  have "list_all (\<lambda>c. byte_val c < 128) base64_alphabet" by (simp add: base64_alphabet_def byte_val_def)
  then show "c \<in> set (base64_EncodeToString s) \<Longrightarrow> byte_val c < 128"
    using encoded_chars [of s] by (auto simp: list_all_iff byte_val_def)
qed

lemma base64_group_encoded:
  fixes n :: nat
  assumes "n div 262144 < 64"
  shows "base64_group (base64_char (n div 262144)) (base64_char (n div 4096 mod 64)) (base64_char (n div 64 mod 64)) (base64_char (n mod 64)) f =
      Some [char_of (n div 65536), char_of (n div 256 mod 256), char_of (n mod 256)]"
    "base64_group (base64_char (n div 262144)) (base64_char (n div 4096 mod 64)) (base64_char (n div 64 mod 64)) (CHR ''='') True =
      Some [char_of (n div 65536), char_of (n div 256 mod 256)]"
    "base64_group (base64_char (n div 262144)) (base64_char (n div 4096 mod 64)) (CHR ''='') (CHR ''='') True =
      Some [char_of (n div 65536)]"
  using assms sextets [of n] by (simp_all add: base64_group_def)

lemma base64_groups_encode: "base64_groups (base64_EncodeToString s) = Some s"
proof (induction s rule: base64_EncodeToString.induct)
  case (2 a)
  have e: "m * 16 div 64 = m * 65536 div 262144" "m * 16 mod 64 = m * 65536 div 4096 mod 64" for m :: nat
    by (simp_all add: mult.commute)
  have "byte_val a * 65536 div 262144 < 64" by (rule less_mult_imp_div_less) (use byte_val_bound [of a] in linarith)
  note g = base64_group_encoded(3) [OF this]
  show ?case
    unfolding base64_EncodeToString.simps Let_def e base64_groups.simps simp_thms(6) g by (simp add: char_of_byte)
next
  case (3 a b)
  let ?n = "(byte_val a * 256 + byte_val b) * 256"
  have e: "m * 4 div 4096 = m * 256 div 262144" "m * 4 div 64 mod 64 = m * 256 div 4096 mod 64" "m * 4 mod 64 = m * 256 div 64 mod 64"
    for m :: nat by (simp_all add: mult.commute)
  have "?n div 262144 < 64"
    by (rule less_mult_imp_div_less) (use byte_val_bound [of a] byte_val_bound [of b] in \<open>unfold distrib_right, linarith\<close>)
  note g = base64_group_encoded(2) [OF this]
  have n: "?n div 65536 = byte_val a" "?n div 256 mod 256 = byte_val b"
    using byte_val_bound [of a] byte_val_bound [of b] by auto
  show ?case
    unfolding base64_EncodeToString.simps Let_def e base64_groups.simps simp_thms(6) g n by (simp add: char_of_byte)
next
  case (4 a b c rest)
  let ?n = "byte_val a * 65536 + byte_val b * 256 + byte_val c"
  have "?n div 262144 < 64"
    by (rule less_mult_imp_div_less) (use byte_val_bound [of a] byte_val_bound [of b] byte_val_bound [of c] in linarith)
  note g = base64_group_encoded(1) [OF this]
  note n = three_bytes [OF byte_val_bound byte_val_bound byte_val_bound, of a b c]
  show ?case
    unfolding base64_EncodeToString.simps Let_def append.simps base64_groups.simps g n using 4 by (simp add: char_of_byte)
qed simp

lemma base64_Decode_Encode: "base64_Decode (base64_EncodeToString s) = Some s"
  by (simp add: base64_Decode_def encoded_no_breaks base64_groups_encode)

end
