(* ===== verification/Go_Struct.thy ===== *)
theory Go_Struct
  imports Go_JSON Go_Base64
begin

text \<open>
  Filling a Go struct from a JSON object, as \<open>encoding/json\<close> does it: a member is matched with the field of
  exactly its name, else with one that differs only in case; \<open>null\<close> leaves the field alone; a value of the
  wrong type or out of range leaves it too, and is an error; the last of several members of one field
  wins, and members of no field are skipped. A filling gives the struct as it was left and whether
  there was no error.
\<close>

section \<open>Fields\<close>

text \<open>Upper case, with the two other characters whose simple case folding is a Latin letter.\<close>

fun fold_key :: "bytes \<Rightarrow> bytes" where
  "fold_key [] = []"
| "fold_key (c # s) =
     (if 97 \<le> byte_val c \<and> byte_val c \<le> 122 then char_of (byte_val c - 32) # fold_key s
      else if take 2 (c # s) = [CHR 0xC5, CHR 0xBF] then CHR ''S'' # fold_key (drop 1 s)
      else if take 3 (c # s) = [CHR 0xE2, CHR 0x84, CHR 0xAA] then CHR ''K'' # fold_key (drop 2 s)
      else c # fold_key s)"

declare fold_key.simps(2) [simp del]

type_synonym 'a filler = "json \<Rightarrow> 'a \<Rightarrow> 'a \<times> bool"
type_synonym 'a fields = "(string \<times> 'a filler) list"

definition find_field :: "'a fields \<Rightarrow> bytes \<Rightarrow> 'a filler option" where
  "find_field fs k =
     (case find (\<lambda>f. fst f = k) fs of
        Some f \<Rightarrow> Some (snd f)
      | None \<Rightarrow> map_option snd (find (\<lambda>f. fold_key (fst f) = fold_key k) fs))"

fun fill_members :: "'a fields \<Rightarrow> (bytes \<times> json) list \<Rightarrow> 'a \<Rightarrow> 'a \<times> bool" where
  "fill_members fs [] a = (a, True)"
| "fill_members fs ((k, j) # ms) a =
     (case find_field fs k of
        None \<Rightarrow> fill_members fs ms a
      | Some f \<Rightarrow> (let (a, ok) = f j a; (a, ok') = fill_members fs ms a in (a, ok \<and> ok')))"

fun fill_struct :: "'a fields \<Rightarrow> 'a filler" where
  "fill_struct fs (JObj ms) a = fill_members fs ms a"
| "fill_struct fs JNull a = (a, True)"
| "fill_struct fs _ a = (a, False)"

section \<open>Field types\<close>

definition scalar :: "(json \<Rightarrow> 'v option) \<Rightarrow> ('v \<Rightarrow> 'a \<Rightarrow> 'a) \<Rightarrow> 'a filler" where
  "scalar dec set_field j a =
     (if j = JNull then (a, True) else case dec j of Some v \<Rightarrow> (set_field v a, True) | None \<Rightarrow> (a, False))"

definition nested :: "'b fields \<Rightarrow> ('a \<Rightarrow> 'b) \<Rightarrow> ('b \<Rightarrow> 'a \<Rightarrow> 'a) \<Rightarrow> 'a filler" where
  "nested fs get_field set_field j a = (let (b, ok) = fill_struct fs j (get_field a) in (set_field b a, ok))"

fun as_string :: "json \<Rightarrow> string option" where
  "as_string (JStr s) = Some s"
| "as_string _ = None"

fun as_bool :: "json \<Rightarrow> bool option" where
  "as_bool (JBool b) = Some b"
| "as_bool _ = None"

text \<open>\<open>strconv.ParseInt\<close> and \<open>strconv.ParseUint\<close> of the literal: a fraction or an exponent is a syntax error.\<close>

fun as_int :: "json \<Rightarrow> int option" where
  "as_int (JNum l) = (case Atoi l of (i, None) \<Rightarrow> Some i | _ \<Rightarrow> None)"
| "as_int _ = None"

fun as_uint :: "nat \<Rightarrow> json \<Rightarrow> nat option" where
  "as_uint w (JNum l) = (case parse_uint l 0 of Inr n \<Rightarrow> if n < 2 ^ w then Some n else None | _ \<Rightarrow> None)"
| "as_uint w _ = None"

text \<open>A \<open>[]byte\<close> is base64 text; \<open>null\<close> is the empty slice.\<close>

fun fill_bytes :: "(bytes \<Rightarrow> 'a \<Rightarrow> 'a) \<Rightarrow> 'a filler" where
  "fill_bytes set_field (JStr s) a = (case base64_Decode s of Some b \<Rightarrow> (set_field b a, True) | None \<Rightarrow> (a, False))"
| "fill_bytes set_field JNull a = (set_field [] a, True)"
| "fill_bytes set_field _ a = (a, False)"

section \<open>Decoding a text\<close>

definition Unmarshal :: "'a filler \<Rightarrow> 'a \<Rightarrow> bytes \<Rightarrow> 'a option" where
  "Unmarshal f zero s =
     (case json_parse s of
        None \<Rightarrow> None
      | Some j \<Rightarrow> let (a, ok) = f j zero in if ok then Some a else None)"

definition Decode :: "'a filler \<Rightarrow> 'a \<Rightarrow> bytes \<Rightarrow> 'a option" where
  "Decode f zero s =
     (case json_first s of
        None \<Rightarrow> None
      | Some j \<Rightarrow> let (a, ok) = f j zero in if ok then Some a else None)"

text \<open>What is left in the struct when the error is ignored: nothing is stored on a syntax error.\<close>

definition Decode_ignoring :: "'a filler \<Rightarrow> 'a \<Rightarrow> bytes \<Rightarrow> 'a" where
  "Decode_ignoring f zero s = (case json_first s of None \<Rightarrow> zero | Some j \<Rightarrow> fst (f j zero))"

definition Marshal :: "json \<Rightarrow> bytes" where
  "Marshal j = print j"

definition Encode :: "json \<Rightarrow> bytes" where
  "Encode j = print j @ [CHR 0x0A]"

section \<open>Numbers\<close>

definition uint_text :: "nat \<Rightarrow> string" where
  "uint_text n = decimal n"

lemma is_digit_digit_char: "d < 10 \<Longrightarrow> is_digit (digit_char d)"
  by (simp add: is_digit_def)

lemma digit_char_0: "digit_char 0 = CHR ''0''"
  by (simp add: digit_char_def char_of_eqI byte_val_def)

lemma digit_char_eq_0:
  assumes "d < 10"
  shows "digit_char d = CHR ''0'' \<longleftrightarrow> d = 0"
proof
  assume "digit_char d = CHR ''0''"
  then have "char_digit (digit_char d) = char_digit (digit_char 0)" by (simp add: digit_char_0)
  then show "d = 0" using assms by simp
qed (simp add: digit_char_0)

lemma decimal_integral: "list_all is_digit (decimal n) \<and> decimal n \<noteq> [] \<and> (hd (decimal n) = CHR ''0'' \<longrightarrow> n = 0)"
proof (induction n rule: decimal.induct)
  case (1 n)
  show ?case
  proof (cases "n < 10")
    case True
    then show ?thesis by (subst (1 2 3) decimal.simps) (simp add: is_digit_digit_char digit_char_eq_0)
  next
    case False
    then have "n div 10 \<noteq> 0" by simp
    then show ?thesis using 1 False by (subst (1 2 3) decimal.simps) (simp add: is_digit_digit_char)
  qed
qed

lemma decimal_0: "decimal 0 = ''0''"
  by (subst decimal.simps) (simp add: digit_char_0)

lemma decimal_leading: "hd (decimal n) = CHR ''0'' \<Longrightarrow> tl (decimal n) = []"
  using decimal_integral [of n] decimal_0 by auto

lemma decimal_no_sign: "hd (decimal n) \<noteq> CHR ''-''"
  using decimal_integral [of n] by (cases "decimal n") auto

lemma integral_uint [simp]: "integral (uint_text n)"
  using decimal_integral [of n] decimal_leading [of n] decimal_no_sign [of n] by (auto simp: integral_def uint_text_def)

lemma integral_Itoa [simp]: "integral (Itoa i)"
  using decimal_integral decimal_leading decimal_no_sign by (simp add: integral_def Itoa_def)

declare as_int.simps(1) [simp del] as_uint.simps(1) [simp del]

lemma as_int_Itoa [simp]: "int64 i \<Longrightarrow> as_int (JNum (Itoa i)) = Some i"
  by (simp add: as_int.simps)

lemma as_uint_text [simp]: "n < 2 ^ 64 \<Longrightarrow> as_uint 64 (JNum (uint_text n)) = Some n"
  by (simp add: as_uint.simps uint_text_def parse_uint_decimal)

lemma as_uint_unat [simp]: "as_uint 64 (JNum (uint_text (unat (w :: 64 word)))) = Some (unat w)"
proof -
  have "unat w < 2 ^ LENGTH(64)" by (rule unsigned_less)
  then show ?thesis by (intro as_uint_text) simp
qed

section \<open>Filling\<close>

lemma scalar_Some [simp]: "dec j = Some v \<Longrightarrow> j \<noteq> JNull \<Longrightarrow> scalar dec set_field j a = (set_field v a, True)"
  by (simp add: scalar_def)

lemma Unmarshal_Marshal:
  "writable maxNestingDepth j \<Longrightarrow> f (clean j) zero = (a, True) \<Longrightarrow> Unmarshal f zero (Marshal j) = Some a"
  "writable maxNestingDepth j \<Longrightarrow> f (clean j) zero = (a, True) \<Longrightarrow> Decode f zero (Marshal j) = Some a"
  "writable maxNestingDepth j \<Longrightarrow> f (clean j) zero = (a, True) \<Longrightarrow> Decode f zero (Encode j) = Some a"
  "writable maxNestingDepth j \<Longrightarrow> f (clean j) zero = (a, ok) \<Longrightarrow> Decode_ignoring f zero (Marshal j) = a"
  by (simp_all add: Unmarshal_def Decode_def Decode_ignoring_def Marshal_def Encode_def json_parse_print)

text \<open>
  A property of the struct that every field upholds, for values with well-formed strings, holds of
  whatever is decoded.
\<close>

definition upholds :: "('a \<Rightarrow> bool) \<Rightarrow> 'a filler \<Rightarrow> bool" where
  "upholds P f \<longleftrightarrow> (\<forall>j a. strings_ok j \<longrightarrow> P a \<longrightarrow> P (fst (f j a)))"

lemma upholdsD: "upholds P f \<Longrightarrow> strings_ok j \<Longrightarrow> P a \<Longrightarrow> P (fst (f j a))"
  by (simp add: upholds_def)

lemma find_mem: "find P xs = Some x \<Longrightarrow> x \<in> set xs"
  by (induction xs) (auto split: if_splits)

lemma find_field_mem: "find_field fs k = Some f \<Longrightarrow> f \<in> snd ` set fs"
  by (auto simp: find_field_def image_iff split: option.splits dest!: find_mem intro: bexI [rotated])

lemma fill_members_upholds:
  assumes "\<forall>f \<in> set fs. upholds P (snd f)"
  shows "list_all (\<lambda>m. valid_utf8 (fst m) \<and> strings_ok (snd m)) ms \<Longrightarrow> P a \<Longrightarrow> P (fst (fill_members fs ms a))"
proof (induction ms arbitrary: a)
  case (Cons m ms)
  obtain k j where m: "m = (k, j)" by fastforce
  show ?case
  proof (cases "find_field fs k")
    case (Some f)
    then have "upholds P f" using find_field_mem assms by fastforce
    then have "P (fst (f j a))" using Cons.prems m by (simp add: upholdsD)
    then show ?thesis using Cons Some m by (simp add: case_prod_beta Let_def)
  qed (use Cons m in simp)
qed simp

lemma upholds_struct:
  assumes "\<forall>f \<in> set fs. upholds P (snd f)"
  shows "upholds P (fill_struct fs)"
  unfolding upholds_def
proof (intro allI impI)
  fix j a assume "strings_ok j" "P a"
  then show "P (fst (fill_struct fs j a))" using fill_members_upholds [OF assms] by (cases j) auto
qed

lemma upholds_scalar:
  assumes "\<And>j v a. strings_ok j \<Longrightarrow> dec j = Some v \<Longrightarrow> P a \<Longrightarrow> P (set_field v a)"
  shows "upholds P (scalar dec set_field)"
  using assms by (auto simp: upholds_def scalar_def split: option.split)

lemma upholds_nested:
  assumes "upholds Q (fill_struct fs)" "\<And>a. P a \<Longrightarrow> Q (get_field a)" "\<And>a b. P a \<Longrightarrow> Q b \<Longrightarrow> P (set_field b a)"
  shows "upholds P (nested fs get_field set_field)"
  using assms by (auto simp: upholds_def nested_def case_prod_beta Let_def)

lemma upholds_decoded:
  assumes "upholds P f" "P zero"
  shows "Unmarshal f zero s = Some a \<Longrightarrow> P a" "Decode f zero s = Some a \<Longrightarrow> P a" "P (Decode_ignoring f zero s)"
  using assms upholdsD [OF assms(1) _ assms(2)]
  by (fastforce simp: Unmarshal_def Decode_def Decode_ignoring_def Let_def case_prod_beta split: option.splits if_splits
      dest: json_strings_ok)+

end
