(* ===== verification/Mission_Model.thy ===== *)
theory Mission_Model
  imports Prelude
begin

text \<open>
  The data of \<open>src/pkg/model/types.go\<close>, one record per struct with the fields of the source in its
  order, their zero values, and the priority of a mission: the triple the queue orders missions
  by, as a linearly ordered type.
\<close>

section \<open>Structs\<close>

record SensorData =
  EventID :: string
  SensorID :: string
  SectorID :: int
  IsRequisition :: bool
  IsCritical :: bool
  InternalClock :: uint64
  NationID :: string
  Signature :: string

record Mission =
  Payload :: SensorData
  LamportClock :: uint64
  LeaseExpires :: instant
  LeaseHolder :: string
  BrokerAnchor :: string

definition zero_SensorData :: SensorData where
  "zero_SensorData = \<lparr>EventID = [], SensorID = [], SectorID = 0, IsRequisition = False,
     IsCritical = False, InternalClock = 0, NationID = [], Signature = []\<rparr>"

definition zero_Mission :: Mission where
  "zero_Mission = \<lparr>Payload = zero_SensorData, LamportClock = 0, LeaseExpires = 0,
     LeaseHolder = [], BrokerAnchor = []\<rparr>"

abbreviation event_of :: "Mission \<Rightarrow> string" where
  "event_of m \<equiv> EventID (Payload m)"

section \<open>Priorities\<close>

text \<open>Critical missions first, then the earlier Lamport clock, then the lesser sensor name.\<close>

datatype Priority = Priority (critical: bool) (clock: uint64) (sensor: string)

instantiation Priority :: linorder
begin

definition less_Priority :: "Priority \<Rightarrow> Priority \<Rightarrow> bool" where
  "p < q \<longleftrightarrow>
     (if critical p \<noteq> critical q then critical p
      else if clock p \<noteq> clock q then clock p < clock q
      else sensor p < sensor q)"

definition less_eq_Priority :: "Priority \<Rightarrow> Priority \<Rightarrow> bool" where
  "(p :: Priority) \<le> q \<longleftrightarrow> p = q \<or> p < q"

instance
proof
  fix p q r :: Priority
  show "(p < q) = (p \<le> q \<and> \<not> q \<le> p)"
    by (auto simp: less_Priority_def less_eq_Priority_def split: if_splits)
  show "p \<le> p" by (simp add: less_eq_Priority_def)
  show "p \<le> q \<Longrightarrow> q \<le> r \<Longrightarrow> p \<le> r"
    by (auto simp: less_Priority_def less_eq_Priority_def split: if_splits)
  show "p \<le> q \<Longrightarrow> q \<le> p \<Longrightarrow> p = q"
    by (auto simp: less_Priority_def less_eq_Priority_def split: if_splits)
  show "p \<le> q \<or> q \<le> p"
    by (cases p; cases q) (auto simp: less_Priority_def less_eq_Priority_def)
qed

end

definition priority :: "Mission \<Rightarrow> Priority" where
  "priority m = Priority (IsCritical (Payload m)) (LamportClock m) (SensorID (Payload m))"

lemma priority_sel [simp]:
  "critical (priority m) = IsCritical (Payload m)" "clock (priority m) = LamportClock m"
  "sensor (priority m) = SensorID (Payload m)"
  by (simp_all add: priority_def)

end
