(* ===== verification/Ledger_Crypto.thy ===== *)
theory Ledger_Crypto
  imports Go_Lib
begin

text \<open>
  The transactions of \<open>src/internal/domain/ledger/payload.go\<close> and how they are signed. Ed25519 is a
  parameter of the model, the record \<open>ed25519\<close> of the four functions the sources call; \<open>ed25519_ok\<close>
  states what its documentation promises (key and signature sizes, and that a signature verifies
  under the matching public key). \<open>SignTransaction\<close> is the broker's function of
  \<open>src/cmd/broker/ledger_client.go\<close>.
\<close>

section \<open>Transactions\<close>

record Transaction =
  tx_Type :: string
  tx_NationID :: string
  tx_EventID :: string
  tx_Signature :: string
  tx_Payload :: string

section \<open>Ed25519\<close>

record 'sk ed25519 =
  NewKeyFromSeed :: "bytes \<Rightarrow> 'sk"
  PublicKey :: "'sk \<Rightarrow> bytes"
  Sign :: "'sk \<Rightarrow> bytes \<Rightarrow> bytes"
  Verify :: "bytes \<Rightarrow> bytes \<Rightarrow> bytes \<Rightarrow> bool"

definition ed25519_ok :: "'sk ed25519 \<Rightarrow> bool" where
  "ed25519_ok E \<longleftrightarrow>
     (\<forall>sk. length (PublicKey E sk) = 32) \<and>
     (\<forall>sk msg. length (Sign E sk msg) = 64) \<and>
     (\<forall>sk msg. Verify E (PublicKey E sk) msg (Sign E sk msg))"

text \<open>
  \<open>[]byte(fmt.Sprintf("%-32s", nationID + "-SECRET-SEED-ORMUZ-2026"))[:32]\<close>: the text padded with
  spaces on the right and cut to 32 bytes.
\<close>

definition seed_of :: "string \<Rightarrow> bytes" where
  "seed_of nationID =
     (let s = nationID @ ''-SECRET-SEED-ORMUZ-2026''
      in take 32 (s @ replicate (32 - length s) CHR '' ''))"

definition SignTransaction :: "'sk ed25519 \<Rightarrow> string \<Rightarrow> string \<Rightarrow> string \<Rightarrow> string" where
  "SignTransaction E nationID txType eventID =
     (let seed = seed_of nationID;
          privKey = NewKeyFromSeed E seed;
          message = txType @ nationID @ eventID;
          signatureBytes = Sign E privKey message
      in hex_EncodeToString signatureBytes)"

lemma length_seed_of [simp]: "length (seed_of n) = 32"
  by (simp add: seed_of_def Let_def)

section \<open>A concrete instance\<close>

text \<open>
  An instance of the parameter for closed examples: the key is the seed, the public key is the
  seed again, and a signature is the first 64 bytes of key and message, padded.
\<close>

definition example_ed25519 :: "bytes ed25519" where
  "example_ed25519 =
     \<lparr>NewKeyFromSeed = (\<lambda>seed. take 32 (seed @ replicate 32 CHR ''k'')),
      PublicKey = (\<lambda>sk. take 32 (sk @ replicate 32 CHR ''k'')),
      Sign = (\<lambda>sk msg. take 64 (take 32 (sk @ replicate 32 CHR ''k'') @ msg @ replicate 64 CHR ''s'')),
      Verify = (\<lambda>pk msg sig. sig = take 64 (take 32 (pk @ replicate 32 CHR ''k'') @ msg @ replicate 64 CHR ''s''))\<rparr>"

lemma example_ed25519_ok: "ed25519_ok example_ed25519"
  by (auto simp: ed25519_ok_def example_ed25519_def)

end
