(* ===== verification/Wire_Format.thy ===== *)
theory Wire_Format
  imports Go_Struct Mission_Model Ledger_Crypto
begin

text \<open>
  The JSON form of the program's structs, from the field tags of \<open>src/pkg/model/types.go\<close> and
  \<open>src/internal/domain/ledger/payload.go\<close> (the drone's \<open>LedgerTransaction\<close> has the same): for each struct the value it is written as
  and the fields it is filled from, that writing and reading gives the struct back with its strings made
  well-formed, and that whatever is read has well-formed strings. \<open>time.Time\<close> writes and reads its own
  text; that pair is the parameter \<open>time_codec\<close>.
\<close>

section \<open>Transactions\<close>

definition json_of_Transaction :: "Transaction \<Rightarrow> json" where
  "json_of_Transaction tx =
     JObj [(''type'', JStr (tx_Type tx)), (''nation_id'', JStr (tx_NationID tx)), (''event_id'', JStr (tx_EventID tx)),
       (''signature'', JStr (tx_Signature tx)), (''payload'', JStr (tx_Payload tx))]"

definition Transaction_fields :: "Transaction fields" where
  "Transaction_fields =
     [(''type'', scalar as_string (\<lambda>v tx. tx\<lparr>tx_Type := v\<rparr>)),
      (''nation_id'', scalar as_string (\<lambda>v tx. tx\<lparr>tx_NationID := v\<rparr>)),
      (''event_id'', scalar as_string (\<lambda>v tx. tx\<lparr>tx_EventID := v\<rparr>)),
      (''signature'', scalar as_string (\<lambda>v tx. tx\<lparr>tx_Signature := v\<rparr>)),
      (''payload'', scalar as_string (\<lambda>v tx. tx\<lparr>tx_Payload := v\<rparr>))]"

definition zero_Transaction :: Transaction where
  "zero_Transaction = \<lparr>tx_Type = [], tx_NationID = [], tx_EventID = [], tx_Signature = [], tx_Payload = []\<rparr>"

definition valid_tx :: "Transaction \<Rightarrow> bool" where
  "valid_tx tx \<longleftrightarrow> valid_utf8 (tx_Type tx) \<and> valid_utf8 (tx_NationID tx) \<and> valid_utf8 (tx_EventID tx) \<and>
     valid_utf8 (tx_Signature tx) \<and> valid_utf8 (tx_Payload tx)"

definition clean_tx :: "Transaction \<Rightarrow> Transaction" where
  "clean_tx tx =
     \<lparr>tx_Type = to_valid (tx_Type tx), tx_NationID = to_valid (tx_NationID tx), tx_EventID = to_valid (tx_EventID tx),
      tx_Signature = to_valid (tx_Signature tx), tx_Payload = to_valid (tx_Payload tx)\<rparr>"

section \<open>Sensor data\<close>

definition json_of_SensorData :: "SensorData \<Rightarrow> json" where
  "json_of_SensorData d =
     JObj [(''event_id'', JStr (EventID d)), (''sensor_id'', JStr (SensorID d)), (''sector_id'', JNum (Itoa (SectorID d))),
       (''is_requisition'', JBool (IsRequisition d)), (''is_critical'', JBool (IsCritical d)),
       (''internal_clock'', JNum (uint_text (unat (InternalClock d)))),
       (''nation_id'', JStr (NationID d)), (''signature'', JStr (Signature d))]"

definition SensorData_fields :: "SensorData fields" where
  "SensorData_fields =
     [(''event_id'', scalar as_string (\<lambda>v d. d\<lparr>EventID := v\<rparr>)),
      (''sensor_id'', scalar as_string (\<lambda>v d. d\<lparr>SensorID := v\<rparr>)),
      (''sector_id'', scalar as_int (\<lambda>v d. d\<lparr>SectorID := v\<rparr>)),
      (''is_requisition'', scalar as_bool (\<lambda>v d. d\<lparr>IsRequisition := v\<rparr>)),
      (''is_critical'', scalar as_bool (\<lambda>v d. d\<lparr>IsCritical := v\<rparr>)),
      (''internal_clock'', scalar (as_uint 64) (\<lambda>v d. d\<lparr>InternalClock := word_of_nat v\<rparr>)),
      (''nation_id'', scalar as_string (\<lambda>v d. d\<lparr>NationID := v\<rparr>)),
      (''signature'', scalar as_string (\<lambda>v d. d\<lparr>Signature := v\<rparr>))]"

definition valid_data :: "SensorData \<Rightarrow> bool" where
  "valid_data d \<longleftrightarrow> int64 (SectorID d) \<and> valid_utf8 (EventID d) \<and> valid_utf8 (SensorID d) \<and> valid_utf8 (NationID d) \<and> valid_utf8 (Signature d)"

section \<open>Missions\<close>

text \<open>
  \<open>time.Time\<close> as JSON: \<open>MarshalJSON\<close> gives the text of an instant, and fails for years it cannot write;
  \<open>UnmarshalJSON\<close> reads one.
\<close>

record time_codec =
  time_Marshal :: "instant \<Rightarrow> bytes option"
  time_Unmarshal :: "bytes \<Rightarrow> instant option"

definition time_ok :: "time_codec \<Rightarrow> bool" where
  "time_ok T \<longleftrightarrow> (\<forall>t s. time_Marshal T t = Some s \<longrightarrow> time_Unmarshal T s = Some t \<and> valid_utf8 s)"

fun as_time :: "time_codec \<Rightarrow> json \<Rightarrow> instant option" where
  "as_time T (JStr s) = time_Unmarshal T s"
| "as_time T _ = None"

text \<open>
  The struct has no tags on its first two fields, so they are written under their Go names;
  \<open>omitempty\<close> drops an empty \<open>lease_holder\<close> and has no effect on a struct like \<open>time.Time\<close>.
\<close>

definition json_of_Mission :: "time_codec \<Rightarrow> Mission \<Rightarrow> json option" where
  "json_of_Mission T m =
     (case time_Marshal T (LeaseExpires m) of
        None \<Rightarrow> None
      | Some t \<Rightarrow> Some (JObj (
          [(''Payload'', json_of_SensorData (Payload m)), (''LamportClock'', JNum (uint_text (unat (LamportClock m)))),
           (''lease_expires'', JStr t)]
          @ (if LeaseHolder m = [] then [] else [(''lease_holder'', JStr (LeaseHolder m))])
          @ [(''broker_anchor'', JStr (BrokerAnchor m))])))"

definition Mission_fields :: "time_codec \<Rightarrow> Mission fields" where
  "Mission_fields T =
     [(''Payload'', nested SensorData_fields Payload (\<lambda>p m. m\<lparr>Payload := p\<rparr>)),
      (''LamportClock'', scalar (as_uint 64) (\<lambda>v m. m\<lparr>LamportClock := word_of_nat v\<rparr>)),
      (''lease_expires'', scalar (as_time T) (\<lambda>v m. m\<lparr>LeaseExpires := v\<rparr>)),
      (''lease_holder'', scalar as_string (\<lambda>v m. m\<lparr>LeaseHolder := v\<rparr>)),
      (''broker_anchor'', scalar as_string (\<lambda>v m. m\<lparr>BrokerAnchor := v\<rparr>))]"

definition valid_mission :: "Mission \<Rightarrow> bool" where
  "valid_mission m \<longleftrightarrow> valid_data (Payload m) \<and> valid_utf8 (LeaseHolder m) \<and> valid_utf8 (BrokerAnchor m)"

section \<open>Well-formedness of what is read\<close>

lemma as_string_valid: "strings_ok j \<Longrightarrow> as_string j = Some s \<Longrightarrow> valid_utf8 s"
  by (cases j) auto

lemma as_int_int64: "as_int j = Some i \<Longrightarrow> int64 i"
  using atoi_val_int64 by (cases j) (auto simp: as_int.simps atoi_val_def split: prod.splits option.splits, metis fst_conv)

lemma upholds_valid_tx: "upholds valid_tx (fill_struct Transaction_fields)"
  by (rule upholds_struct) (auto simp: Transaction_fields_def valid_tx_def as_string_valid intro!: upholds_scalar)

lemma upholds_valid_data: "upholds valid_data (fill_struct SensorData_fields)"
  by (rule upholds_struct) (auto simp: SensorData_fields_def valid_data_def as_string_valid as_int_int64 intro!: upholds_scalar)

lemma upholds_valid_mission: "upholds valid_mission (fill_struct (Mission_fields T))"
  by (rule upholds_struct)
    (auto simp: Mission_fields_def valid_mission_def as_string_valid intro!: upholds_scalar upholds_nested upholds_valid_data)

lemma valid_zero: "valid_tx zero_Transaction" "valid_data zero_SensorData" "valid_mission zero_Mission"
  by (simp_all add: zero_Transaction_def zero_SensorData_def zero_Mission_def valid_tx_def valid_data_def valid_mission_def int64_def)

section \<open>Round trips\<close>

text \<open>Field names are plain ASCII, so writing does not change them.\<close>

lemma to_valid_ascii: "list_all (\<lambda>c. byte_val c < 128) s \<Longrightarrow> to_valid s = s"
  by (simp add: valid_ascii list_all_iff)

lemma field_names [simp]:
  "to_valid ''type'' = ''type''" "to_valid ''nation_id'' = ''nation_id''" "to_valid ''event_id'' = ''event_id''"
  "to_valid ''signature'' = ''signature''" "to_valid ''payload'' = ''payload''" "to_valid ''sensor_id'' = ''sensor_id''"
  "to_valid ''sector_id'' = ''sector_id''" "to_valid ''is_requisition'' = ''is_requisition''" "to_valid ''is_critical'' = ''is_critical''"
  "to_valid ''internal_clock'' = ''internal_clock''" "to_valid ''Payload'' = ''Payload''" "to_valid ''LamportClock'' = ''LamportClock''"
  "to_valid ''lease_expires'' = ''lease_expires''" "to_valid ''lease_holder'' = ''lease_holder''" "to_valid ''broker_anchor'' = ''broker_anchor''"
  by (rule to_valid_ascii, simp add: byte_val_def)+

lemma fill_Transaction:
  "fill_struct Transaction_fields (clean (json_of_Transaction tx)) zero_Transaction = (clean_tx tx, True)"
  by (simp add: json_of_Transaction_def Transaction_fields_def find_field_def clean_tx_def zero_Transaction_def)

lemma writable_Transaction: "0 < d \<Longrightarrow> writable d (json_of_Transaction tx)"
  by (simp add: json_of_Transaction_def)

lemma fill_SensorData:
  assumes "valid_data d"
  shows "fill_struct SensorData_fields (clean (json_of_SensorData d)) zero_SensorData = (d, True)"
  using assms by (simp add: json_of_SensorData_def SensorData_fields_def find_field_def valid_data_def zero_SensorData_def)

lemma writable_SensorData: "0 < d \<Longrightarrow> writable d (json_of_SensorData data)"
  by (simp add: json_of_SensorData_def)

lemma fill_Mission:
  assumes "valid_mission m" "time_ok T" "json_of_Mission T m = Some j"
  shows "fill_struct (Mission_fields T) (clean j) zero_Mission = (m, True)"
proof -
  obtain t where t: "time_Marshal T (LeaseExpires m) = Some t" using assms(3) by (auto simp: json_of_Mission_def split: option.splits)
  then have "time_Unmarshal T t = Some (LeaseExpires m)" "to_valid t = t" using assms(2) by (simp_all add: time_ok_def)
  then show ?thesis
    using assms(1,3) t fill_SensorData [of "Payload m"]
    by (auto simp: json_of_Mission_def Mission_fields_def find_field_def valid_mission_def zero_Mission_def nested_def)
qed

lemma writable_Mission: "json_of_Mission T m = Some j \<Longrightarrow> 1 < d \<Longrightarrow> writable d j"
  by (auto simp: json_of_Mission_def writable_SensorData split: option.splits)

end
