(* ===== verification/Sector_Router.thy ===== *)
theory Sector_Router
  imports Go_Lib
begin

text \<open>
  The router of \<open>src/cmd/broker/routing.go\<close>: which broker owns a sector. The consistent-hashing ring of
  \<open>stathat.com/c/consistent\<close> is a parameter, the record \<open>consistent\<close> of the calls the router makes,
  with its documented behaviour as \<open>consistent_ok\<close>. The answers of the DNS and of
  \<open>net.InterfaceAddrs\<close> are arguments. \<open>WatchTopology_pass\<close> is one iteration of the watcher's loop.
\<close>

section \<open>The ring\<close>

record 'r consistent =
  ring_New :: 'r
  ring_Replicas :: "nat \<Rightarrow> 'r \<Rightarrow> 'r"
  ring_Set :: "'r \<Rightarrow> string list \<Rightarrow> 'r"
  ring_Get :: "'r \<Rightarrow> string \<Rightarrow> string option"
  ring_Members :: "'r \<Rightarrow> string list"
  ring_Add :: "'r \<Rightarrow> string \<Rightarrow> 'r"
  ring_Remove :: "'r \<Rightarrow> string \<Rightarrow> 'r"

text \<open>\<open>Set\<close> replaces the members; \<open>Get\<close> names a member and fails only on an empty ring.\<close>

definition consistent_ok :: "'r consistent \<Rightarrow> bool" where
  "consistent_ok C \<longleftrightarrow>
     (\<forall>r xs. set (ring_Members C (ring_Set C r xs)) = set xs) \<and>
     ring_Members C (ring_New C) = [] \<and>
     (\<forall>r k ip. ring_Get C r k = Some ip \<longrightarrow> ip \<in> set (ring_Members C r)) \<and>
     (\<forall>r k. ring_Get C r k = None \<longrightarrow> ring_Members C r = [])"

section \<open>The router\<close>

record 'r SectorRouter =
  ring :: 'r
  previousSwarmState :: string
  sectorCount :: int
  dnsTarget :: string

definition NewSectorRouter :: "'r consistent \<Rightarrow> int \<Rightarrow> string \<Rightarrow> 'r SectorRouter" where
  "NewSectorRouter C n target =
     \<lparr>ring = ring_New C, previousSwarmState = [], sectorCount = n, dnsTarget = target\<rparr>"

text \<open>
  One iteration of \<open>WatchTopology\<close>: \<open>None\<close> is a failed lookup. The flag says that the callback for a
  changed topology is started.
\<close>

definition WatchTopology_pass :: "'r consistent \<Rightarrow> string list option \<Rightarrow> 'r SectorRouter \<Rightarrow> 'r SectorRouter \<times> bool" where
  "WatchTopology_pass C ips r =
     (case ips of
        None \<Rightarrow> (r, False)
      | Some addrs \<Rightarrow>
          if addrs = [] then (r, False)
          else let ipStrs = sort addrs; currentState = Join ipStrs CHR '',''
               in if currentState \<noteq> previousSwarmState r
                  then (r\<lparr>ring := ring_Set C (ring_Replicas C 256 (ring_New C)) ipStrs,
                          previousSwarmState := currentState\<rparr>, True)
                  else (r, False))"

definition GetOwnerIP :: "'r consistent \<Rightarrow> 'r SectorRouter \<Rightarrow> int \<Rightarrow> string" where
  "GetOwnerIP C r sectorID =
     (let key = ''sector-'' @ Itoa sectorID
      in case ring_Get C (ring r) key of None \<Rightarrow> [] | Some ownerIP \<Rightarrow> ownerIP)"

definition GetAllMembers :: "'r consistent \<Rightarrow> 'r SectorRouter \<Rightarrow> string list" where
  "GetAllMembers C r = ring_Members C (ring r)"

definition AddMember :: "'r consistent \<Rightarrow> 'r SectorRouter \<Rightarrow> string \<Rightarrow> 'r SectorRouter" where
  "AddMember C r ip = r\<lparr>ring := ring_Add C (ring r) ip\<rparr>"

definition RemoveMember :: "'r consistent \<Rightarrow> 'r SectorRouter \<Rightarrow> string \<Rightarrow> 'r SectorRouter" where
  "RemoveMember C r ip = r\<lparr>ring := ring_Remove C (ring r) ip\<rparr>"

section \<open>Local addresses\<close>

text \<open>An interface address: an IP network with its printed address, or something else.\<close>

datatype ifaddr = IPNet (ip_String: string) (IsLoopback: bool) (is_IPv4: bool) | OtherAddr

definition localhost :: string where
  "localhost = ''127.0.0.1''"

fun first_public :: "ifaddr list \<Rightarrow> string" where
  "first_public [] = localhost"
| "first_public (IPNet s loop v4 # rest) = (if \<not> loop \<and> v4 then s else first_public rest)"
| "first_public (OtherAddr # rest) = first_public rest"

definition getLocalIP :: "ifaddr list option \<Rightarrow> string" where
  "getLocalIP addrs = (case addrs of None \<Rightarrow> localhost | Some as \<Rightarrow> first_public as)"

fun any_address :: "string \<Rightarrow> ifaddr list \<Rightarrow> bool" where
  "any_address ip [] = False"
| "any_address ip (IPNet s loop v4 # rest) = (s = ip \<or> any_address ip rest)"
| "any_address ip (OtherAddr # rest) = any_address ip rest"

definition isLocalIP :: "ifaddr list option \<Rightarrow> string \<Rightarrow> bool" where
  "isLocalIP addrs ip =
     (if ip = localhost \<or> ip = ''localhost'' then True
      else if ip = getLocalIP addrs then True
      else case addrs of None \<Rightarrow> False | Some as \<Rightarrow> any_address ip as)"

section \<open>Agreement on owners\<close>

text \<open>
  The router's ring is the one built from the addresses its recorded state names. Addresses hold
  no comma, so the joined text determines them.
\<close>

definition ring_of :: "'r consistent \<Rightarrow> string list \<Rightarrow> 'r" where
  "ring_of C ips = ring_Set C (ring_Replicas C 256 (ring_New C)) (sort ips)"

definition ip_list :: "string list \<Rightarrow> bool" where
  "ip_list ips \<longleftrightarrow> (\<forall>ip \<in> set ips. ip \<noteq> [] \<and> CHR '','' \<notin> set ip)"

definition router_inv :: "'r consistent \<Rightarrow> 'r SectorRouter \<Rightarrow> bool" where
  "router_inv C r \<longleftrightarrow>
     (\<forall>ips. ips \<noteq> [] \<longrightarrow> ip_list ips \<longrightarrow> previousSwarmState r = Join (sort ips) CHR '','' \<longrightarrow> ring r = ring_of C ips)"

lemma Join_not_Nil: "ips \<noteq> [] \<Longrightarrow> ip_list ips \<Longrightarrow> Join ips CHR '','' \<noteq> []"
  by (cases ips; cases "tl ips") (auto simp: ip_list_def)

lemma ip_list_sort [simp]: "ip_list (sort ips) = ip_list ips"
  by (simp add: ip_list_def)

lemma sort_eq_Nil [simp]: "sort xs = [] \<longleftrightarrow> xs = []"
  by (metis length_0_conv length_sort)

lemma router_inv_New: "router_inv C (NewSectorRouter C n target)"
  unfolding router_inv_def
proof (intro allI impI)
  fix ips :: "string list"
  assume "ips \<noteq> []" "ip_list ips"
    and eq: "previousSwarmState (NewSectorRouter C n target) = Join (sort ips) CHR '',''"
  then have "Join (sort ips) CHR '','' \<noteq> []" by (intro Join_not_Nil) simp_all
  with eq show "ring (NewSectorRouter C n target) = ring_of C ips" by (simp add: NewSectorRouter_def)
qed

lemma WatchTopology_inv:
  assumes "router_inv C r" "ips \<noteq> []" "ip_list ips"
  shows "router_inv C (fst (WatchTopology_pass C (Some ips) r)) \<and>
    ring (fst (WatchTopology_pass C (Some ips) r)) = ring_of C ips"
proof (cases "Join (sort ips) CHR '','' = previousSwarmState r")
  case True
  then have "fst (WatchTopology_pass C (Some ips) r) = r" using assms(2) by (simp add: WatchTopology_pass_def)
  moreover have "ring r = ring_of C ips" using assms True by (simp add: router_inv_def)
  ultimately show ?thesis using assms(1) by simp
next
  case False
  let ?r = "fst (WatchTopology_pass C (Some ips) r)"
  have r: "ring ?r = ring_of C ips" "previousSwarmState ?r = Join (sort ips) CHR '',''"
    using False assms(2) by (auto simp: WatchTopology_pass_def ring_of_def Let_def)
  have "ring_of C ips = ring_of C js"
    if js: "js \<noteq> []" "ip_list js" "Join (sort ips) CHR '','' = Join (sort js) CHR '',''" for js
  proof -
    have "sort ips = sort js"
      using Join_inject [OF js(3)] assms(2,3) js(1,2) by (auto simp: ip_list_def)
    then show ?thesis by (simp add: ring_of_def)
  qed
  then show ?thesis using r by (simp add: router_inv_def)
qed

lemma owner_is_member:
  "consistent_ok C \<Longrightarrow> ips \<noteq> [] \<Longrightarrow> ring r = ring_of C ips \<Longrightarrow> GetOwnerIP C r s \<in> set ips"
proof -
  assume ok: "consistent_ok C" and ne: "ips \<noteq> []" and r: "ring r = ring_of C ips"
  let ?key = "''sector-'' @ Itoa s"
  have mem: "set (ring_Members C (ring r)) = set ips"
    using ok unfolding r ring_of_def consistent_ok_def by simp
  show ?thesis
  proof (cases "ring_Get C (ring r) ?key")
    case None
    then have "ring_Members C (ring r) = []" using ok unfolding consistent_ok_def by blast
    then show ?thesis using mem ne by simp
  next
    case (Some ip)
    then have "ip \<in> set ips" using ok mem unfolding consistent_ok_def by blast
    then show ?thesis using Some unfolding GetOwnerIP_def Let_def by (simp del: append.simps)
  qed
qed

section \<open>Properties\<close>

text \<open>The watcher's passes over a sequence of successful lookups.\<close>

fun watch :: "'r consistent \<Rightarrow> 'r SectorRouter \<Rightarrow> string list list \<Rightarrow> 'r SectorRouter" where
  "watch C r [] = r"
| "watch C r (ips # rest) = watch C (fst (WatchTopology_pass C (Some ips) r)) rest"

lemma watch_inv:
  "router_inv C r \<Longrightarrow> \<forall>ips \<in> set views. ips \<noteq> [] \<and> ip_list ips \<Longrightarrow> router_inv C (watch C r views)"
  by (induction views arbitrary: r) (auto simp: WatchTopology_inv)

lemma watch_append: "watch C r (vs @ [ips]) = fst (WatchTopology_pass C (Some ips) (watch C r vs))"
  by (induction vs arbitrary: r) auto

lemma watched_ring:
  assumes "\<forall>ips \<in> set (views @ [ips]). ips \<noteq> [] \<and> ip_list ips"
  shows "ring (watch C (NewSectorRouter C n target) (views @ [ips])) = ring_of C ips"
proof -
  have "router_inv C (watch C (NewSectorRouter C n target) views)"
    using assms by (intro watch_inv [OF router_inv_New]) simp
  from WatchTopology_inv [OF this, THEN conjunct2, of ips] show ?thesis
    using assms by (simp add: watch_append)
qed

text \<open>C25. Brokers agree on who owns a sector: two routers that have watched the topology from their start, each
  through any earlier lookups, and have last resolved the same addresses, in whatever order the
  DNS listed them, name the same owner for every sector, and it is one of those addresses.\<close>

theorem brokers_agree_on_owner:
  assumes "consistent_ok C"
    and "\<forall>ips \<in> set (views1 @ [ips1]). ips \<noteq> [] \<and> ip_list ips" "\<forall>ips \<in> set (views2 @ [ips2]). ips \<noteq> [] \<and> ip_list ips"
    and "mset ips1 = mset ips2"
  shows "GetOwnerIP C (watch C (NewSectorRouter C n target) (views1 @ [ips1])) sector =
      GetOwnerIP C (watch C (NewSectorRouter C n target) (views2 @ [ips2])) sector \<and>
    GetOwnerIP C (watch C (NewSectorRouter C n target) (views1 @ [ips1])) sector \<in> set ips1"
proof -
  let ?r1 = "watch C (NewSectorRouter C n target) (views1 @ [ips1])"
  let ?r2 = "watch C (NewSectorRouter C n target) (views2 @ [ips2])"
  have 1: "ring ?r1 = ring_of C ips1"
    using watched_ring [OF assms(2)] .
  have 2: "ring ?r2 = ring_of C ips2"
    using watched_ring [OF assms(3)] .
  have "sort ips1 = sort ips2" using assms(4) by (metis properties_for_sort sorted_sort mset_sort)
  then have "ring ?r1 = ring ?r2" using 1 2 by (simp add: ring_of_def)
  then show ?thesis using owner_is_member [OF assms(1) _ 1] assms(2) by (simp add: GetOwnerIP_def)
qed

text \<open>A ring for closed examples: the list of members, the first of which owns every key.\<close>

definition example_ring :: "string list consistent" where
  "example_ring =
     \<lparr>ring_New = [], ring_Replicas = (\<lambda>n r. r), ring_Set = (\<lambda>r xs. xs),
      ring_Get = (\<lambda>r k. case r of [] \<Rightarrow> None | x # _ \<Rightarrow> Some x), ring_Members = (\<lambda>r. r),
      ring_Add = (\<lambda>r x. x # r), ring_Remove = (\<lambda>r x. removeAll x r)\<rparr>"

lemma example_ring_ok: "consistent_ok example_ring"
  by (auto simp: consistent_ok_def example_ring_def split: list.splits)

theorem brokers_agree_on_owner_witness:
  "GetOwnerIP example_ring (watch example_ring (NewSectorRouter example_ring 25 ''tasks.broker'') ([[''10.0.0.9'']] @ [[''10.0.0.2'', ''10.0.0.1'']])) 7 =
   GetOwnerIP example_ring (watch example_ring (NewSectorRouter example_ring 25 ''tasks.broker'') ([] @ [[''10.0.0.1'', ''10.0.0.2'']])) 7"
proof -
  have 1: "\<forall>ips \<in> set ([[''10.0.0.9'']] @ [[''10.0.0.2'', ''10.0.0.1'']]). ips \<noteq> [] \<and> ip_list ips"
    and 2: "\<forall>ips \<in> set ([] @ [[''10.0.0.1'', ''10.0.0.2'']]). ips \<noteq> [] \<and> ip_list ips"
    by (simp_all add: ip_list_def)
  have 3: "mset [''10.0.0.2'', ''10.0.0.1''] = mset [''10.0.0.1'', ''10.0.0.2'']" by simp
  show ?thesis using brokers_agree_on_owner [OF example_ring_ok 1 2 3] by blast
qed

end
