(* ===== verification/Go_Heap.thy ===== *)
theory Go_Heap
  imports Prelude
begin

text \<open>
  Go's \<open>container/heap\<close>, which \<open>src/pkg/queue/priority_queue.go\<close> runs its missions through. The
  package works on any value that implements \<open>heap.Interface\<close>; here that is the record \<open>heap_iface\<close>
  of the four methods it calls on a slice. \<open>heap_up\<close>, \<open>heap_down\<close>, \<open>heap_Init\<close>, \<open>heap_Push\<close> and \<open>heap_Pop\<close>
  follow the loops of the package. The locale \<open>heap_interface\<close> states what an implementation must
  promise (its \<open>Less\<close> compares elements by a strict weak order, \<open>Swap\<close>, \<open>Push\<close> and \<open>Pop\<close> are the
  slice operations) and proves, once, that every operation keeps the heap order and the
  elements, and that the root precedes everything else.
\<close>

section \<open>The package\<close>

record 'a heap_iface =
  hi_Less :: "'a list \<Rightarrow> nat \<Rightarrow> nat \<Rightarrow> bool"
  hi_Swap :: "'a list \<Rightarrow> nat \<Rightarrow> nat \<Rightarrow> 'a list"
  hi_Push :: "'a list \<Rightarrow> 'a \<Rightarrow> 'a list"
  hi_Pop :: "'a list \<Rightarrow> 'a \<times> 'a list"

text \<open>In Go \<open>(j - 1) / 2\<close> truncates towards zero, so the parent of index 0 is 0, as here.\<close>

definition parent :: "nat \<Rightarrow> nat" where
  "parent j = (j - 1) div 2"

function heap_up :: "'a heap_iface \<Rightarrow> 'a list \<Rightarrow> nat \<Rightarrow> 'a list" where
  "heap_up I h j =
     (let i = parent j
      in if i = j \<or> \<not> hi_Less I h j i then h
         else heap_up I (hi_Swap I h i j) i)"
  by pat_completeness auto
termination
  by (relation "measure (\<lambda>(I, h, j). j)") (auto simp: parent_def)

text \<open>The child \<open>down\<close> compares with its parent: the second one only where it precedes the first.\<close>

definition least_child :: "'a heap_iface \<Rightarrow> 'a list \<Rightarrow> nat \<Rightarrow> nat \<Rightarrow> nat" where
  "least_child I h i n =
     (let j1 = 2 * i + 1; j2 = j1 + 1 in if j2 < n \<and> hi_Less I h j2 j1 then j2 else j1)"

function heap_down :: "'a heap_iface \<Rightarrow> 'a list \<Rightarrow> nat \<Rightarrow> nat \<Rightarrow> 'a list" where
  "heap_down I h i n =
     (if n \<le> 2 * i + 1 then h
      else let j = least_child I h i n
           in if \<not> hi_Less I h j i then h else heap_down I (hi_Swap I h i j) j n)"
  by pat_completeness auto
termination
  by (relation "measure (\<lambda>(I, h, i, n). n - i)") (auto simp: least_child_def Let_def split: if_splits)

declare heap_up.simps [simp del] heap_down.simps [simp del]

text \<open>\<open>for i := n/2 - 1; i >= 0; i--\<close>\<close>

fun heap_Init_loop :: "'a heap_iface \<Rightarrow> nat \<Rightarrow> nat \<Rightarrow> 'a list \<Rightarrow> 'a list" where
  "heap_Init_loop I n 0 h = h"
| "heap_Init_loop I n (Suc i) h = heap_Init_loop I n i (heap_down I h i n)"

definition heap_Init :: "'a heap_iface \<Rightarrow> 'a list \<Rightarrow> 'a list" where
  "heap_Init I h = heap_Init_loop I (length h) (length h div 2) h"

definition heap_Push :: "'a heap_iface \<Rightarrow> 'a list \<Rightarrow> 'a \<Rightarrow> 'a list" where
  "heap_Push I h x = (let h' = hi_Push I h x in heap_up I h' (length h' - 1))"

definition heap_Pop :: "'a heap_iface \<Rightarrow> 'a list \<Rightarrow> 'a \<times> 'a list" where
  "heap_Pop I h = (let n = length h - 1 in hi_Pop I (heap_down I (hi_Swap I h 0 n) 0 n))"

section \<open>Heap order\<close>

text \<open>No child whose parent has index at least \<open>k\<close> precedes its parent, among the first \<open>n\<close> elements.\<close>

definition heap_from :: "('a \<Rightarrow> 'a \<Rightarrow> bool) \<Rightarrow> nat \<Rightarrow> nat \<Rightarrow> 'a list \<Rightarrow> bool" where
  "heap_from before k n h \<longleftrightarrow>
     (\<forall>c < n. 0 < c \<longrightarrow> k \<le> parent c \<longrightarrow> \<not> before (h ! c) (h ! parent c))"

definition is_heap :: "('a \<Rightarrow> 'a \<Rightarrow> bool) \<Rightarrow> 'a list \<Rightarrow> bool" where
  "is_heap before h \<longleftrightarrow> heap_from before 0 (length h) h"

text \<open>The heap order except above \<open>j\<close>, and except below \<open>i\<close>: what the two loops maintain.\<close>

definition heap_above :: "('a \<Rightarrow> 'a \<Rightarrow> bool) \<Rightarrow> nat \<Rightarrow> 'a list \<Rightarrow> bool" where
  "heap_above before j h \<longleftrightarrow>
     (\<forall>c < length h. 0 < c \<longrightarrow> c \<noteq> j \<longrightarrow> \<not> before (h ! c) (h ! parent c)) \<and>
     (\<forall>c < length h. 0 < c \<longrightarrow> parent c = j \<longrightarrow> 0 < j \<longrightarrow> \<not> before (h ! c) (h ! parent j))"

definition heap_below :: "('a \<Rightarrow> 'a \<Rightarrow> bool) \<Rightarrow> nat \<Rightarrow> nat \<Rightarrow> nat \<Rightarrow> 'a list \<Rightarrow> bool" where
  "heap_below before k i n h \<longleftrightarrow>
     (\<forall>c < n. 0 < c \<longrightarrow> k \<le> parent c \<longrightarrow> parent c \<noteq> i \<longrightarrow> \<not> before (h ! c) (h ! parent c)) \<and>
     (\<forall>c < n. 0 < c \<longrightarrow> parent c = i \<longrightarrow> 0 < i \<longrightarrow> k \<le> parent i \<longrightarrow> \<not> before (h ! c) (h ! parent i))"

lemma parent_less [simp]: "0 < j \<Longrightarrow> parent j < j"
  by (auto simp: parent_def)

lemma parent_le [simp]: "parent j \<le> j"
  by (auto simp: parent_def)

lemma parent_bound [simp]: "c < m \<Longrightarrow> parent c < m"
  by (rule le_less_trans [OF parent_le])

lemma parent_eq_self [simp]: "parent j = j \<longleftrightarrow> j = 0"
  by (auto simp: parent_def)

lemma parent_0 [simp]: "parent 0 = 0"
  by (simp add: parent_def)

lemma parent_child [simp]: "parent (Suc (2 * i)) = i" "parent (Suc (Suc (2 * i))) = i"
  by (simp_all add: parent_def)

lemma parent_cases: "0 < c \<Longrightarrow> parent c = i \<Longrightarrow> c = 2 * i + 1 \<or> c = 2 * i + 2"
  by (auto simp: parent_def)

lemma heap_from_half: "heap_from before (n div 2) n h"
  by (auto simp: heap_from_def parent_def)

section \<open>What an implementation of the interface promises\<close>

locale weak_order =
  fixes before :: "'a \<Rightarrow> 'a \<Rightarrow> bool"
  assumes irrefl: "\<not> before x x"
    and trans: "before x y \<Longrightarrow> before y z \<Longrightarrow> before x z"
    and neg_trans: "\<not> before x y \<Longrightarrow> \<not> before y z \<Longrightarrow> \<not> before x z"
begin

lemma asym: "before x y \<Longrightarrow> \<not> before y x"
  using irrefl trans by blast

text \<open>The root of a heap is preceded by no element.\<close>

lemma heap_root:
  assumes "is_heap before h" "i < length h"
  shows "\<not> before (h ! i) (h ! 0)"
  using assms(2)
proof (induction i rule: less_induct)
  case (less i)
  show ?case
  proof (cases "i = 0")
    case True
    then show ?thesis by (simp add: irrefl)
  next
    case False
    then have "\<not> before (h ! parent i) (h ! 0)" using less parent_less [of i] by (auto intro: less.IH)
    moreover have "\<not> before (h ! i) (h ! parent i)"
      using assms(1) less.prems False by (simp add: is_heap_def heap_from_def)
    ultimately show ?thesis using neg_trans by blast
  qed
qed

end

locale heap_interface = weak_order before for before :: "'a \<Rightarrow> 'a \<Rightarrow> bool" +
  fixes I :: "'a heap_iface"
  assumes Less: "hi_Less I h i j \<longleftrightarrow> before (h ! i) (h ! j)"
    and Swap: "i < length h \<Longrightarrow> j < length h \<Longrightarrow> hi_Swap I h i j = h[i := h ! j, j := h ! i]"
    and Push: "hi_Push I h x = h @ [x]"
    and Pop: "h \<noteq> [] \<Longrightarrow> hi_Pop I h = (last h, butlast h)"
begin

lemma length_Swap [simp]: "i < length h \<Longrightarrow> j < length h \<Longrightarrow> length (hi_Swap I h i j) = length h"
  by (simp add: Swap)

lemma mset_Swap [simp]: "i < length h \<Longrightarrow> j < length h \<Longrightarrow> mset (hi_Swap I h i j) = mset h"
  by (simp add: Swap mset_swap)

lemma nth_Swap: "i < length h \<Longrightarrow> j < length h \<Longrightarrow> c < length h \<Longrightarrow>
    hi_Swap I h i j ! c = (if c = i then h ! j else if c = j then h ! i else h ! c)"
  by (auto simp: Swap nth_list_update)

text \<open>The loop of \<open>up\<close>: one swap moves the hole to the parent.\<close>

lemma heap_above_Swap:
  assumes "heap_above before j h" "j < length h" "0 < j" "before (h ! j) (h ! parent j)"
  shows "heap_above before (parent j) (hi_Swap I h (parent j) j)"
proof -
  let ?i = "parent j" and ?h = "hi_Swap I h (parent j) j"
  have ij: "?i < j" "?i < length h" using assms(2) parent_less [OF assms(3)] by linarith+
  have len: "length ?h = length h" using ij assms(2) by simp
  have ord: "\<And>c. c < length h \<Longrightarrow> 0 < c \<Longrightarrow> c \<noteq> j \<Longrightarrow> \<not> before (h ! c) (h ! parent c)"
    and skip: "\<And>c. c < length h \<Longrightarrow> 0 < c \<Longrightarrow> parent c = j \<Longrightarrow> \<not> before (h ! c) (h ! ?i)"
    using assms(1,3) by (auto simp: heap_above_def)
  have nth: "\<And>c. c < length h \<Longrightarrow> ?h ! c = (if c = ?i then h ! j else if c = j then h ! ?i else h ! c)"
    using ij assms(2) by (intro nth_Swap) auto
  have "\<not> before (?h ! c) (?h ! parent c)" if c: "c < length h" "0 < c" "c \<noteq> ?i" for c
  proof -
    have "parent c < length h" using c by simp
    then have p: "?h ! parent c = (if parent c = ?i then h ! j else if parent c = j then h ! ?i else h ! parent c)"
      by (rule nth)
    consider "c = j" | "c \<noteq> j" "parent c = j" | "c \<noteq> j" "parent c = ?i" "?i \<noteq> j"
      | "c \<noteq> j" "parent c \<noteq> j" "parent c \<noteq> ?i" using ij by auto
    then show ?thesis
    proof cases
      case 1 then show ?thesis using nth c p ij asym [OF assms(4)] by simp
    next
      case 2 then show ?thesis using nth c p ij skip [of c] by simp
    next
      case 3 then show ?thesis using nth c p ord [of c] trans [OF _ assms(4)] by auto
    next
      case 4 then show ?thesis using nth c p ord [of c] by simp
    qed
  qed
  moreover have "\<not> before (?h ! c) (?h ! parent ?i)"
    if c: "c < length h" "0 < c" "parent c = ?i" "0 < ?i" for c
  proof -
    have pi: "parent ?i < ?i" using c(4) by simp
    then have "?h ! parent ?i = h ! parent ?i" using nth [of "parent ?i"] ij by simp
    moreover have "\<not> before (h ! ?i) (h ! parent ?i)" using ord [of ?i] ij c(4) by simp
    moreover have "c \<noteq> ?i" using c by auto
    moreover have "c \<noteq> j \<Longrightarrow> \<not> before (h ! c) (h ! ?i)" using ord [of c] c by simp
    ultimately show ?thesis using nth c(1) neg_trans by (cases "c = j") auto
  qed
  ultimately show ?thesis unfolding heap_above_def len by blast
qed

lemma heap_up_correct:
  assumes "heap_above before j h" "j < length h"
  shows "is_heap before (heap_up I h j) \<and> mset (heap_up I h j) = mset h"
  using assms
proof (induction j arbitrary: h rule: less_induct)
  case (less j)
  show ?case
  proof (cases "parent j = j \<or> \<not> hi_Less I h j (parent j)")
    case True
    then have "heap_up I h j = h" by (subst heap_up.simps) (simp add: Let_def)
    moreover have "is_heap before h"
      using True less.prems by (auto simp: is_heap_def heap_from_def heap_above_def Less)
    ultimately show ?thesis by simp
  next
    case False
    let ?h = "hi_Swap I h (parent j) j"
    have j: "0 < j" "parent j < j" "parent j < length h"
      using False less.prems(2) parent_less [of j] by (auto intro: le_less_trans [OF parent_le])
    have "heap_above before (parent j) ?h"
      using heap_above_Swap less.prems False j(1) by (simp add: Less)
    moreover have "heap_up I h j = heap_up I ?h (parent j)"
      using False by (subst heap_up.simps) (simp add: Let_def)
    ultimately show ?thesis using less.IH [of "parent j" ?h] less.prems(2) j by simp
  qed
qed

text \<open>The loop of \<open>down\<close>: one swap moves the hole to the lesser child.\<close>

lemma least_child:
  assumes "2 * i + 1 < n"
  shows "least_child I h i n < n" "parent (least_child I h i n) = i" "i < least_child I h i n"
    "0 < c \<Longrightarrow> c < n \<Longrightarrow> parent c = i \<Longrightarrow> \<not> before (h ! c) (h ! least_child I h i n)"
  using assms irrefl asym
  by (auto simp: least_child_def Let_def Less dest!: parent_cases)

lemma heap_below_Swap:
  assumes "heap_below before k i n h" "k \<le> i" "2 * i + 1 < n" "n \<le> length h"
    and j: "j = least_child I h i n" and less: "before (h ! j) (h ! i)"
  shows "heap_below before k j n (hi_Swap I h i j)"
proof -
  let ?h = "hi_Swap I h i j"
  note child = least_child [OF assms(3), where h = h, folded j]
  have bounds: "i < j" "j < length h" "i < length h" "parent j = i" "i < n" "j < n"
    using child assms(4) by auto
  have ord: "\<And>c. c < n \<Longrightarrow> 0 < c \<Longrightarrow> k \<le> parent c \<Longrightarrow> parent c \<noteq> i \<Longrightarrow> \<not> before (h ! c) (h ! parent c)"
    and skip: "0 < i \<Longrightarrow> k \<le> parent i \<Longrightarrow> \<not> before (h ! j) (h ! parent i)"
    using assms(1) bounds unfolding heap_below_def by auto
  have nth: "\<And>c. c < length h \<Longrightarrow> ?h ! c = (if c = i then h ! j else if c = j then h ! i else h ! c)"
    using bounds by (intro nth_Swap) auto
  have "\<not> before (?h ! c) (?h ! parent c)" if c: "c < n" "0 < c" "k \<le> parent c" "parent c \<noteq> j" for c
  proof -
    have cl: "c < length h" "parent c < length h" "parent c < c"
      using c(1,2) assms(4) parent_less [of c] by linarith+
    note p = nth [OF cl(2)] nth [OF cl(1)]
    consider "c = j" | "c \<noteq> j" "parent c = i" | "c = i" | "c \<noteq> j" "c \<noteq> i" "parent c \<noteq> i" by blast
    then show ?thesis
    proof cases
      case 1 then show ?thesis using p bounds asym [OF less] by auto
    next
      case 2 then show ?thesis using p bounds cl child(4) [of c] c by auto
    next
      case 3 then show ?thesis using p bounds cl skip c by auto
    next
      case 4 then show ?thesis using p ord [of c] c by auto
    qed
  qed
  moreover have "\<not> before (?h ! c) (?h ! parent j)" if c: "c < n" "0 < c" "parent c = j" for c
  proof -
    have "j < c" using c parent_less [of c] by simp
    then show ?thesis using nth [of c] nth [of i] c ord [of c] bounds assms(2,4) by auto
  qed
  ultimately show ?thesis unfolding heap_below_def by blast
qed

lemma heap_below_stop:
  assumes "heap_below before k i n h"
    and "2 * i + 1 < n \<Longrightarrow> \<not> before (h ! least_child I h i n) (h ! i)"
  shows "heap_from before k n h"
  unfolding heap_from_def
proof (intro allI impI)
  fix c assume c: "c < n" "0 < c" "k \<le> parent c"
  show "\<not> before (h ! c) (h ! parent c)"
  proof (cases "parent c = i")
    case True
    then have "2 * i + 1 < n \<or> c = 2 * i + 1" using parent_cases [OF c(2)] c(1) by fastforce
    then have n: "2 * i + 1 < n" using c(1) by auto
    show ?thesis using neg_trans [OF least_child(4) [OF n c(2,1) True] assms(2) [OF n]] True by simp
  next
    case False
    then show ?thesis using assms(1) c unfolding heap_below_def by blast
  qed
qed

lemma heap_down_correct:
  assumes "heap_below before k i n h" "k \<le> i" "n \<le> length h"
  shows "heap_from before k n (heap_down I h i n) \<and> mset (heap_down I h i n) = mset h \<and>
    (\<forall>c. n \<le> c \<longrightarrow> heap_down I h i n ! c = h ! c)"
  using assms
proof (induction "n - i" arbitrary: i h rule: less_induct)
  case less
  show ?case
  proof (cases "n \<le> 2 * i + 1 \<or> \<not> before (h ! least_child I h i n) (h ! i)")
    case True
    then have "heap_down I h i n = h" by (subst heap_down.simps) (auto simp: Let_def Less)
    moreover have "heap_from before k n h" using True less.prems(1) by (intro heap_below_stop) auto
    ultimately show ?thesis by simp
  next
    case False
    let ?j = "least_child I h i n" and ?h = "hi_Swap I h i (least_child I h i n)"
    have n: "2 * i + 1 < n" using False by simp
    note child = least_child [OF n, where h = h]
    have len: "i < length h" "?j < length h" using child less.prems(3) n by linarith+
    have "heap_down I h i n = heap_down I ?h ?j n"
      using False n by (subst heap_down.simps) (simp add: Let_def Less)
    moreover have "heap_below before k ?j n ?h"
      using False less.prems n by (intro heap_below_Swap) auto
    moreover have "\<forall>c. n \<le> c \<longrightarrow> ?h ! c = h ! c" using len child n by (auto simp: Swap)
    ultimately show ?thesis using less.hyps [of ?j ?h] less.prems child len by auto
  qed
qed

lemma length_heap_down:
  "heap_below before k i n h \<Longrightarrow> k \<le> i \<Longrightarrow> n \<le> length h \<Longrightarrow> length (heap_down I h i n) = length h"
  using heap_down_correct by (metis size_mset)

lemma heap_Init_loop_correct:
  "heap_from before i n h \<Longrightarrow> n \<le> length h \<Longrightarrow>
   heap_from before 0 n (heap_Init_loop I n i h) \<and> mset (heap_Init_loop I n i h) = mset h"
proof (induction i arbitrary: h)
  case (Suc i)
  have below: "heap_below before i i n h"
    unfolding heap_below_def
  proof (intro conjI allI impI)
    fix c assume "c < n" "0 < c" "i \<le> parent c" "parent c \<noteq> i"
    then show "\<not> before (h ! c) (h ! parent c)" using Suc.prems(1) by (simp add: heap_from_def)
  next
    fix c assume "0 < i" "i \<le> parent i"
    then show "\<not> before (h ! c) (h ! parent i)" using parent_less [of i] by linarith
  qed
  show ?case
    using Suc.IH [of "heap_down I h i n"] heap_down_correct [OF below] length_heap_down [OF below] Suc.prems
    by simp
qed simp

section \<open>The three entry points\<close>

lemma is_heap_Init: "is_heap before (heap_Init I h)"
  and mset_Init: "mset (heap_Init I h) = mset h"
proof -
  have *: "heap_from before 0 (length h) (heap_Init I h) \<and> mset (heap_Init I h) = mset h"
    unfolding heap_Init_def by (rule heap_Init_loop_correct [OF heap_from_half order_refl])
  then have "length (heap_Init I h) = length h" by (metis size_mset)
  with * show "is_heap before (heap_Init I h)" "mset (heap_Init I h) = mset h"
    by (simp_all add: is_heap_def)
qed

lemma heap_Push_correct:
  assumes "is_heap before h"
  shows "is_heap before (heap_Push I h x)" "mset (heap_Push I h x) = add_mset x (mset h)"
proof -
  have "heap_above before (length h) (h @ [x])"
    unfolding heap_above_def
  proof (intro conjI allI impI)
    fix c assume c: "c < length (h @ [x])" "0 < c" "c \<noteq> length h"
    then have "c < length h" "parent c < length h" using parent_less [OF c(2)] by auto
    then show "\<not> before ((h @ [x]) ! c) ((h @ [x]) ! parent c)"
      using assms c by (simp add: nth_append is_heap_def heap_from_def)
  next
    fix c assume "c < length (h @ [x])" "0 < c" "parent c = length h"
    then show "\<not> before ((h @ [x]) ! c) ((h @ [x]) ! parent (length h))"
      using parent_less [of c] by simp
  qed
  from heap_up_correct [OF this]
  show "is_heap before (heap_Push I h x)" "mset (heap_Push I h x) = add_mset x (mset h)"
    by (simp_all add: heap_Push_def Push Let_def)
qed

lemma heap_Pop_correct:
  assumes "is_heap before h" "h \<noteq> []" "heap_Pop I h = (x, h')"
  shows "x = h ! 0" "is_heap before h'" "mset h = add_mset x (mset h')"
proof -
  let ?n = "length h - 1" and ?s = "hi_Swap I h 0 (length h - 1)"
  let ?d = "heap_down I ?s 0 ?n"
  have n: "?n < length h" "0 < length h" using assms(2) by auto
  have len: "length ?s = length h" using n by simp
  have nth: "\<And>c. c < length h \<Longrightarrow> ?s ! c = (if c = 0 then h ! ?n else if c = ?n then h ! 0 else h ! c)"
    using n by (intro nth_Swap) auto
  have "\<not> before (?s ! c) (?s ! parent c)" if c: "c < ?n" "0 < c" "parent c \<noteq> 0" for c
  proof -
    have "parent c \<noteq> ?n" using parent_bound [OF c(1)] by (rule less_imp_neq)
    moreover have "c < length h" "parent c < length h" using c(1) by auto
    ultimately have "?s ! c = h ! c" "?s ! parent c = h ! parent c" using c nth by auto
    then show ?thesis using c assms(1) by (simp add: is_heap_def heap_from_def)
  qed
  then have below: "heap_below before 0 0 ?n ?s" by (simp add: heap_below_def)
  have d: "heap_from before 0 ?n ?d" "mset ?d = mset h" "?d ! ?n = h ! 0"
    using heap_down_correct [OF below] len n nth [of ?n] by auto
  have ld: "length ?d = length h" "?d \<noteq> []" using length_heap_down [OF below] len n by auto
  then have x: "x = last ?d" "h' = butlast ?d" using assms(3) by (simp_all add: heap_Pop_def Let_def Pop)
  then show "x = h ! 0" using d ld by (simp add: last_conv_nth)
  have "mset ?d = add_mset (last ?d) (mset (butlast ?d))"
    using ld(2) by (metis append_butlast_last_id mset_append mset_single_iff add_mset_add_single union_commute mset.simps)
  then show "mset h = add_mset x (mset h')" using d x by simp
  show "is_heap before h'"
    unfolding is_heap_def heap_from_def
  proof (intro allI impI)
    fix c assume c: "c < length h'" "0 < c"
    then have "c < ?n" "parent c < ?n" using x ld parent_less [of c] by auto
    then show "\<not> before (h' ! c) (h' ! parent c)"
      using d(1) c x ld by (simp add: heap_from_def nth_butlast)
  qed
qed

end

end
