(* ===== verification/Lamport_Clock.thy ===== *)
theory Lamport_Clock
  imports Prelude
begin

text \<open>
  The Lamport clock of \<open>src/pkg/clock/lamport.go\<close>: one global \<open>uint64\<close> written by the atomic
  increment of \<open>Tick\<close> and by the compare-and-swap loop of \<open>Sync\<close>. The sequential definitions are
  the bodies of the three functions; the step relation \<open>clk_step\<close> interleaves any number of
  goroutines at the granularity of the atomic operations. The lemmas bound the clock, show
  that the values it hands out increase strictly (so no two events get the same time) as long as
  the 64 bits do not overflow, and say exactly when they do.
\<close>

section \<open>The three operations\<close>

text \<open>The memory cell is passed along: \<open>Tick\<close> gives the new cell and the returned value.\<close>

definition Tick :: "uint64 \<Rightarrow> uint64 \<times> uint64" where
  "Tick globalLamportClock = (globalLamportClock + 1, globalLamportClock + 1)"

definition Get :: "uint64 \<Rightarrow> uint64" where
  "Get globalLamportClock = globalLamportClock"

definition CompareAndSwap :: "uint64 \<Rightarrow> uint64 \<Rightarrow> uint64 \<Rightarrow> uint64 \<times> bool" where
  "CompareAndSwap cell old new = (if cell = old then (new, True) else (cell, False))"

definition sync_value :: "uint64 \<Rightarrow> uint64 \<Rightarrow> uint64" where
  "sync_value current receivedClock =
     (let mx = current; mx = (if receivedClock > mx then receivedClock else mx) in mx + 1)"

text \<open>
  The loop of \<open>Sync\<close>. The list holds, for each iteration, the value other goroutines have left in
  the cell between the load and the compare-and-swap; when it is used up nobody interferes any
  more. The result is the final cell and the returned clock.
\<close>

fun Sync :: "uint64 list \<Rightarrow> uint64 \<Rightarrow> uint64 \<Rightarrow> uint64 \<times> uint64" where
  "Sync [] receivedClock cell =
     (let current = cell; newClock = sync_value current receivedClock
      in (fst (CompareAndSwap cell current newClock), newClock))"
| "Sync (cell' # env) receivedClock cell =
     (let current = cell; newClock = sync_value current receivedClock;
          (cell'', swapped) = CompareAndSwap cell' current newClock
      in if swapped then (cell'', newClock) else Sync env receivedClock cell'')"

section \<open>Interleaved goroutines\<close>

text \<open>
  A goroutine inside \<open>Sync\<close> is about to load the cell, or holds the value it loaded and is about
  to compare and swap. The history records every value handed out, with the received clock of
  the \<open>Sync\<close> that made it.
\<close>

datatype clk_pc = Outside | Loading uint64 | Swapping uint64 uint64

record clk_sys =
  cell :: uint64
  pcs :: "nat \<Rightarrow> clk_pc"
  issued :: "(uint64 option \<times> uint64) list"

datatype clk_event = EvTick | EvCall nat uint64 | EvLoad nat | EvSwap nat

definition clk_init :: clk_sys where
  "clk_init = \<lparr>cell = 0, pcs = (\<lambda>_. Outside), issued = []\<rparr>"

inductive clk_step :: "clk_sys \<Rightarrow> clk_event \<Rightarrow> clk_sys \<Rightarrow> bool" where
  tick: "Tick (cell s) = (c, v) \<Longrightarrow>
    clk_step s EvTick (s\<lparr>cell := c, issued := issued s @ [(None, v)]\<rparr>)"
| call: "pcs s i = Outside \<Longrightarrow>
    clk_step s (EvCall i r) (s\<lparr>pcs := (pcs s)(i := Loading r)\<rparr>)"
| load: "pcs s i = Loading r \<Longrightarrow>
    clk_step s (EvLoad i) (s\<lparr>pcs := (pcs s)(i := Swapping r (cell s))\<rparr>)"
| swap: "pcs s i = Swapping r cur \<Longrightarrow> CompareAndSwap (cell s) cur (sync_value cur r) = (c, True) \<Longrightarrow>
    clk_step s (EvSwap i)
      (s\<lparr>cell := c, pcs := (pcs s)(i := Outside), issued := issued s @ [(Some r, sync_value cur r)]\<rparr>)"
| retry: "pcs s i = Swapping r cur \<Longrightarrow> CompareAndSwap (cell s) cur (sync_value cur r) = (c, False) \<Longrightarrow>
    clk_step s (EvSwap i) (s\<lparr>cell := c, pcs := (pcs s)(i := Loading r)\<rparr>)"

inductive clk_run :: "clk_event list \<Rightarrow> clk_sys \<Rightarrow> bool" where
  start: "clk_run [] clk_init"
| step: "clk_run es s \<Longrightarrow> clk_step s e t \<Longrightarrow> clk_run (es @ [e]) t"

inductive_cases clk_stepE: "clk_step s e t"

text \<open>Every received clock of the run is at most \<open>B\<close>.\<close>

fun received_within :: "nat \<Rightarrow> clk_event \<Rightarrow> bool" where
  "received_within B (EvCall i r) = (unat r \<le> B)"
| "received_within B _ = True"

section \<open>Values\<close>

lemma CompareAndSwap_simps [simp]:
  "CompareAndSwap c c n = (n, True)" "c \<noteq> old \<Longrightarrow> CompareAndSwap c old n = (c, False)"
  by (simp_all add: CompareAndSwap_def)

lemma CompareAndSwap_True: "CompareAndSwap c old n = (c', True) \<longleftrightarrow> c = old \<and> c' = n"
  by (auto simp: CompareAndSwap_def)

lemma CompareAndSwap_False: "CompareAndSwap c old n = (c', False) \<longleftrightarrow> c \<noteq> old \<and> c' = c"
  by (auto simp: CompareAndSwap_def)

lemma sync_value_max: "sync_value cur r = max cur r + 1"
  by (auto simp: sync_value_def Let_def max_def)

lemma unat_Suc_no_wrap: "unat (x :: uint64) < 2 ^ 64 - 1 \<Longrightarrow> unat (x + 1) = Suc (unat x)"
  by (simp add: unat_word_ariths)

lemma unat_max: "unat (max (x :: uint64) y) = max (unat x) (unat y)"
  by (simp add: max_def word_le_nat_alt)

lemma unat_sync_value:
  assumes "unat cur < 2 ^ 64 - 1" "unat r < 2 ^ 64 - 1"
  shows "unat (sync_value cur r) = Suc (max (unat cur) (unat r))"
  using assms by (simp add: sync_value_max unat_Suc_no_wrap unat_max)

lemma Sync_from_some_cell:
  assumes "Sync env r c = (c', v)"
  shows "c' = v \<and> (\<exists>cur \<in> insert c (set env). v = sync_value cur r)"
  using assms
proof (induction env arbitrary: c)
  case (Cons d env)
  show ?case
  proof (cases "d = c")
    case True
    with Cons.prems show ?thesis by (auto simp: Let_def)
  next
    case False
    with Cons.prems have "Sync env r d = (c', v)" by (simp add: Let_def)
    from Cons.IH [OF this] show ?thesis by auto
  qed
qed (auto simp: Let_def)

section \<open>Invariant of the interleavings\<close>

text \<open>
  After \<open>k\<close> steps with received clocks up to \<open>B\<close>: the cell is at most \<open>B + k\<close>, no goroutine
  holds a received clock above \<open>B\<close>, and the values handed out increase strictly up to the cell
  and exceed the clocks that were received.
\<close>

definition clk_inv :: "nat \<Rightarrow> nat \<Rightarrow> clk_sys \<Rightarrow> bool" where
  "clk_inv B k s \<longleftrightarrow>
     unat (cell s) \<le> B + k \<and>
     (\<forall>i r. pcs s i = Loading r \<longrightarrow> unat r \<le> B) \<and>
     (\<forall>i r c. pcs s i = Swapping r c \<longrightarrow> unat r \<le> B) \<and>
     sorted_wrt (<) (map snd (issued s)) \<and>
     (\<forall>(r, v) \<in> set (issued s). v \<le> cell s) \<and>
     (\<forall>(r, v) \<in> set (issued s). \<forall>x. r = Some x \<longrightarrow> x < v)"

lemma clk_inv_init: "clk_inv B 0 clk_init"
  by (simp add: clk_inv_def clk_init_def)

text \<open>The common part of the two steps that hand out a value: the new cell is above the old one.\<close>

lemma clk_inv_issue:
  assumes inv: "clk_inv B k s" and above: "cell s < v" and bound: "unat v \<le> Suc (B + k)"
    and recv: "\<And>x. r = Some x \<Longrightarrow> x < v"
    and pcs': "\<And>i. pc i = pcs s i \<or> pc i = Outside"
  shows "clk_inv B (Suc k) (s\<lparr>cell := v, pcs := pc, issued := issued s @ [(r, v)]\<rparr>)"
proof -
  have "\<And>i x. pc i = Loading x \<Longrightarrow> unat x \<le> B" "\<And>i x c. pc i = Swapping x c \<Longrightarrow> unat x \<le> B"
    using inv pcs' unfolding clk_inv_def by (metis clk_pc.distinct)+
  moreover have "\<forall>(q, w) \<in> set (issued s). w < v"
    using inv above unfolding clk_inv_def by fastforce
  ultimately show ?thesis
    using inv bound recv unfolding clk_inv_def
    by (auto simp: sorted_wrt_append less_imp_le)
qed

lemma clk_inv_mono: "clk_inv B k s \<Longrightarrow> clk_inv B (Suc k) s"
  by (simp add: clk_inv_def)

lemma clk_inv_step:
  assumes "clk_step s e t" "clk_inv B k s" "received_within B e" "Suc (B + k) < 2 ^ 64"
  shows "clk_inv B (Suc k) t"
  using assms(1)
proof cases
  case (tick c v)
  have "unat (cell s) < 2 ^ 64 - 1" using assms(2,4) by (simp add: clk_inv_def)
  then have "unat (cell s + 1) = Suc (unat (cell s))" by (rule unat_Suc_no_wrap)
  with assms(2) have "clk_inv B (Suc k) (s\<lparr>cell := cell s + 1, pcs := pcs s, issued := issued s @ [(None, cell s + 1)]\<rparr>)"
    by (intro clk_inv_issue) (auto simp: clk_inv_def word_less_nat_alt)
  with tick show ?thesis by (auto simp: Tick_def)
next
  case (call i r)
  with assms(2,3) show ?thesis by (auto simp: clk_inv_def)
next
  case (load i r)
  with assms(2) show ?thesis by (auto simp: clk_inv_def)
next
  case (swap i r cur c)
  then have cur: "cell s = cur" "c = sync_value cur r" by (auto simp: CompareAndSwap_True)
  have r: "unat r \<le> B" and c: "unat cur \<le> B + k"
    using assms(2) swap(3) cur unfolding clk_inv_def by blast+
  have "unat (sync_value cur r) = Suc (max (unat cur) (unat r))"
    using r c assms(4) by (intro unat_sync_value) auto
  with r c cur assms(2) swap show ?thesis
    by (auto intro!: clk_inv_issue simp: word_less_nat_alt)
next
  case (retry i r cur c)
  have "unat r \<le> B" using assms(2) retry(3) unfolding clk_inv_def by blast
  with assms(2) retry show ?thesis by (auto simp: clk_inv_def CompareAndSwap_False)
qed

lemma clk_run_inv:
  "clk_run es s \<Longrightarrow> list_all (received_within B) es \<Longrightarrow> B + length es < 2 ^ 64 \<Longrightarrow>
   clk_inv B (length es) s"
proof (induction rule: clk_run.induct)
  case (step es s e t)
  then have "clk_inv B (length es) s" by simp
  with step show ?case using clk_inv_step by fastforce
qed (simp add: clk_inv_init)

section \<open>Properties\<close>

text \<open>\<open>Sync\<close> returns, whatever other goroutines write in between, and the clock it returns is
  the value it left in the cell; if neither the cell nor the received clock is at the largest
  64-bit value, that clock is above the received one and above the value it replaced.\<close>

lemma Sync_advances:
  assumes "Sync env receivedClock c = (c', v)"
    and "\<forall>x \<in> insert receivedClock (insert c (set env)). unat x < 2 ^ 64 - 1"
  shows "c' = v \<and> receivedClock < v \<and> (\<exists>old \<in> insert c (set env). old < v \<and> v = sync_value old receivedClock)"
proof -
  obtain old where old: "old \<in> insert c (set env)" "v = sync_value old receivedClock" and "c' = v"
    using Sync_from_some_cell [OF assms(1)] by blast
  have "unat v = Suc (max (unat old) (unat receivedClock))"
    using old assms(2) by (auto intro: unat_sync_value)
  then have "receivedClock < v" "old < v" by (simp_all add: word_less_nat_alt)
  then show ?thesis using old \<open>c' = v\<close> by blast
qed

text \<open>C12. Goroutines that tick and synchronise concurrently, interleaved in any way at their atomic
  operations, are never handed the same Lamport time: in a run of fewer than \<open>2 ^ 64 - B\<close>
  steps that receives no clock above \<open>B\<close>, the values handed out increase strictly in the order
  they are handed out, and each \<open>Sync\<close> returns more than it received.\<close>

theorem clock_values_increase:
  assumes "clk_run es s" "list_all (received_within B) es" "B + length es < 2 ^ 64"
  shows "sorted_wrt (<) (map snd (issued s)) \<and> distinct (map snd (issued s)) \<and>
    (\<forall>x v. (Some x, v) \<in> set (issued s) \<longrightarrow> x < v)"
proof -
  have "clk_inv B (length es) s" using clk_run_inv assms by blast
  then have "sorted_wrt (<) (map snd (issued s))" "\<forall>x v. (Some x, v) \<in> set (issued s) \<longrightarrow> x < v"
    by (auto simp: clk_inv_def)
  then show ?thesis using strict_sorted_iff by blast
qed

theorem clock_values_increase_witness:
  "\<exists>s. clk_run [EvCall 0 5, EvLoad 0, EvTick, EvSwap 0, EvLoad 0, EvSwap 0] s
     \<and> issued s = [(None, 1), (Some 5, 6)] \<and> distinct (map snd (issued s))"
proof -
  let ?s1 = "clk_init\<lparr>pcs := (pcs clk_init)(0 := Loading 5)\<rparr>"
  let ?s2 = "?s1\<lparr>pcs := (pcs ?s1)(0 := Swapping 5 (cell ?s1))\<rparr>"
  let ?s3 = "?s2\<lparr>cell := 1, issued := issued ?s2 @ [(None, 1)]\<rparr>"
  let ?s4 = "?s3\<lparr>cell := 1, pcs := (pcs ?s3)(0 := Loading 5)\<rparr>"
  let ?s5 = "?s4\<lparr>pcs := (pcs ?s4)(0 := Swapping 5 (cell ?s4))\<rparr>"
  let ?s6 = "?s5\<lparr>cell := 6, pcs := (pcs ?s5)(0 := Outside), issued := issued ?s5 @ [(Some 5, sync_value 1 5)]\<rparr>"
  have r1: "clk_run ([] @ [EvCall 0 5]) ?s1"
    by (rule clk_run.step [OF clk_run.start]) (rule clk_step.call, simp add: clk_init_def)
  have r2: "clk_run (([] @ [EvCall 0 5]) @ [EvLoad 0]) ?s2"
    by (rule clk_run.step [OF r1]) (rule clk_step.load, simp)
  have r3: "clk_run ((([] @ [EvCall 0 5]) @ [EvLoad 0]) @ [EvTick]) ?s3"
    by (rule clk_run.step [OF r2]) (rule clk_step.tick, simp add: Tick_def clk_init_def)
  have r4: "clk_run (((([] @ [EvCall 0 5]) @ [EvLoad 0]) @ [EvTick]) @ [EvSwap 0]) ?s4"
    by (rule clk_run.step [OF r3]) (rule clk_step.retry [where r = 5 and cur = 0], simp_all add: clk_init_def)
  have r5: "clk_run ((((([] @ [EvCall 0 5]) @ [EvLoad 0]) @ [EvTick]) @ [EvSwap 0]) @ [EvLoad 0]) ?s5"
    by (rule clk_run.step [OF r4]) (rule clk_step.load, simp)
  have r6: "clk_run (((((([] @ [EvCall 0 5]) @ [EvLoad 0]) @ [EvTick]) @ [EvSwap 0]) @ [EvLoad 0]) @ [EvSwap 0]) ?s6"
    by (rule clk_run.step [OF r5]) (rule clk_step.swap [where r = 5 and cur = 1], simp_all add: sync_value_def)
  from r6 have r: "clk_run [EvCall 0 5, EvLoad 0, EvTick, EvSwap 0, EvLoad 0, EvSwap 0] ?s6" by simp
  have "distinct (map snd (issued ?s6))"
    using clock_values_increase [OF r, of 5] by simp
  moreover have "issued ?s6 = [(None, 1), (Some 5, 6)]" by (simp add: clk_init_def sync_value_def)
  ultimately show ?thesis using r by blast
qed

text \<open>The clock is not protected against overflow: a packet whose clock is the largest 64-bit
  value sets the receiver's clock back to 0, below every value it has handed out before.\<close>

lemma Sync_overflow_resets: "Sync [] (- 1) c = (0, 0)"
  by (simp add: sync_value_max max_def)

end
