(* ===== verification/Mission_Queue.thy ===== *)
theory Mission_Queue
  imports Mission_Model Go_Heap Lamport_Clock
begin

text \<open>
  The mission queue of \<open>src/pkg/queue/priority_queue.go\<close>: the \<open>missionHeap\<close> slice with its \<open>Less\<close>,
  \<open>Swap\<close>, \<open>Push\<close> and \<open>Pop\<close>, and the \<open>PriorityQueue\<close> built on it. Each exported method holds the
  queue's mutex from its first to its last statement, so it is one atomic function on the
  queue. The worker goroutine is modelled by one pass of its loop, with the Lamport clock it
  reads as an argument. The locale \<open>mission_queue\<close> is the contract the radar, the broker and the
  station rely on; it is interpreted here on the queue itself.
\<close>

section \<open>missionHeap\<close>

type_synonym missionHeap = "Mission list"

definition Less :: "missionHeap \<Rightarrow> nat \<Rightarrow> nat \<Rightarrow> bool" where
  "Less h i j =
     (if IsCritical (Payload (h ! i)) \<noteq> IsCritical (Payload (h ! j)) then IsCritical (Payload (h ! i))
      else if LamportClock (h ! i) \<noteq> LamportClock (h ! j) then LamportClock (h ! i) < LamportClock (h ! j)
      else SensorID (Payload (h ! i)) < SensorID (Payload (h ! j)))"

definition Swap :: "missionHeap \<Rightarrow> nat \<Rightarrow> nat \<Rightarrow> missionHeap" where
  "Swap h i j = h[i := h ! j, j := h ! i]"

definition Push :: "missionHeap \<Rightarrow> Mission \<Rightarrow> missionHeap" where
  "Push h x = h @ [x]"

definition Pop :: "missionHeap \<Rightarrow> Mission \<times> missionHeap" where
  "Pop h = (let old = h; n = length old; item = old ! (n - 1) in (item, take (n - 1) old))"

definition missionHeap_iface :: "Mission heap_iface" where
  "missionHeap_iface = \<lparr>hi_Less = Less, hi_Swap = Swap, hi_Push = Push, hi_Pop = Pop\<rparr>"

section \<open>PriorityQueue\<close>

record PriorityQueue =
  mh :: missionHeap
  agingLimit :: uint64

definition New :: "uint64 \<Rightarrow> PriorityQueue" where
  "New limit = \<lparr>mh = heap_Init missionHeap_iface [], agingLimit = limit\<rparr>"

definition Enqueue :: "PriorityQueue \<Rightarrow> Mission \<Rightarrow> PriorityQueue" where
  "Enqueue pq m = pq\<lparr>mh := heap_Push missionHeap_iface (mh pq) m\<rparr>"

definition Dequeue :: "PriorityQueue \<Rightarrow> PriorityQueue \<times> Mission \<times> bool" where
  "Dequeue pq =
     (if length (mh pq) = 0 then (pq, zero_Mission, False)
      else let (mission, h) = heap_Pop missionHeap_iface (mh pq) in (pq\<lparr>mh := h\<rparr>, mission, True))"

text \<open>One pass of \<open>antiStarvationWorker\<close>: its scan of the slice, and the rebuild if it promoted.\<close>

definition overaged :: "uint64 \<Rightarrow> uint64 \<Rightarrow> Mission \<Rightarrow> bool" where
  "overaged limit currentClock mission \<longleftrightarrow>
     currentClock > LamportClock mission \<and> currentClock - LamportClock mission > limit"

fun promote_scan :: "uint64 \<Rightarrow> uint64 \<Rightarrow> Mission list \<Rightarrow> Mission list \<times> bool" where
  "promote_scan limit currentClock [] = ([], False)"
| "promote_scan limit currentClock (mission # ms) =
     (let (ms', promoted) = promote_scan limit currentClock ms
      in if \<not> IsCritical (Payload mission) \<and> overaged limit currentClock mission
         then (mission\<lparr>Payload := (Payload mission)\<lparr>IsCritical := True\<rparr>\<rparr> # ms', True)
         else (mission # ms', promoted))"

definition antiStarvation_pass :: "uint64 \<Rightarrow> PriorityQueue \<Rightarrow> PriorityQueue" where
  "antiStarvation_pass globalLamportClock pq =
     (if length (mh pq) = 0 then pq
      else let currentClock = Get globalLamportClock;
               (h, promoted) = promote_scan (agingLimit pq) currentClock (mh pq)
           in if promoted then pq\<lparr>mh := heap_Init missionHeap_iface h\<rparr> else pq\<lparr>mh := h\<rparr>)"

text \<open>The lines \<open>PrintAllMissions\<close> logs: position, shortened event, criticality and sensor.\<close>

fun mission_lines :: "nat \<Rightarrow> Mission list \<Rightarrow> go_panic + (nat \<times> string \<times> bool \<times> string) list" where
  "mission_lines i [] = Inr []"
| "mission_lines i (mission # ms) =
     (case (if 8 < length (event_of mission) then slice_to (event_of mission) 8 else Inr (event_of mission)) of
        Inl p \<Rightarrow> Inl p
      | Inr eventID \<Rightarrow>
          (case mission_lines (Suc i) ms of
             Inl p \<Rightarrow> Inl p
           | Inr ls \<Rightarrow> Inr ((i, eventID, IsCritical (Payload mission), SensorID (Payload mission)) # ls)))"

definition PrintAllMissions :: "PriorityQueue \<Rightarrow> go_panic + (nat \<times> string \<times> bool \<times> string) list" where
  "PrintAllMissions mq = (if length (mh mq) = 0 then Inr [] else mission_lines 0 (mh mq))"

section \<open>The order of the heap\<close>

text \<open>A mission precedes another when its priority is the lesser one.\<close>

definition precedes :: "Mission \<Rightarrow> Mission \<Rightarrow> bool" where
  "precedes a b \<longleftrightarrow> priority a < priority b"

lemma Less_precedes: "Less h i j \<longleftrightarrow> precedes (h ! i) (h ! j)"
  by (simp add: Less_def precedes_def less_Priority_def)

interpretation mission_heap: heap_interface precedes missionHeap_iface
proof
  fix h :: missionHeap assume "h \<noteq> []"
  then show "hi_Pop missionHeap_iface h = (last h, butlast h)"
    by (simp add: missionHeap_iface_def Pop_def Let_def last_conv_nth butlast_conv_take)
qed (auto simp: precedes_def missionHeap_iface_def Less_precedes Swap_def Push_def)

section \<open>The queue's contract\<close>

text \<open>
  A queue of missions with an invariant and a multiset of contents. Dequeuing reports an empty
  queue, and otherwise removes a mission no other one precedes.
\<close>

locale mission_queue =
  fixes enqueue :: "'q \<Rightarrow> 'm \<Rightarrow> 'q"
    and dequeue :: "'q \<Rightarrow> 'q \<times> 'm \<times> bool"
    and contents :: "'q \<Rightarrow> 'm multiset"
    and invar :: "'q \<Rightarrow> bool"
    and before :: "'m \<Rightarrow> 'm \<Rightarrow> bool"
  assumes invar_enqueue: "invar q \<Longrightarrow> invar (enqueue q m)"
    and contents_enqueue: "invar q \<Longrightarrow> contents (enqueue q m) = add_mset m (contents q)"
    and dequeue_empty: "invar q \<Longrightarrow> dequeue q = (q', m, False) \<Longrightarrow> contents q = {#} \<and> q' = q"
    and dequeue_some: "invar q \<Longrightarrow> dequeue q = (q', m, True) \<Longrightarrow>
      invar q' \<and> contents q = add_mset m (contents q')"
    and dequeue_first: "invar q \<Longrightarrow> dequeue q = (q', m, True) \<Longrightarrow> x \<in># contents q \<Longrightarrow> \<not> before x m"
begin

text \<open>Returning a list of missions to the queue, as the janitors do.\<close>

lemma enqueue_all:
  "invar q \<Longrightarrow> invar (foldl enqueue q ms) \<and> contents (foldl enqueue q ms) = contents q + mset ms"
  by (induction ms arbitrary: q) (auto simp: invar_enqueue contents_enqueue)

lemma dequeue_nonempty: "invar q \<Longrightarrow> contents q \<noteq> {#} \<Longrightarrow> \<exists>q' m. dequeue q = (q', m, True)"
  by (metis (full_types) dequeue_empty prod_cases3)

end

text \<open>Dequeuing \<open>n\<close> times, or until the queue reports that it is empty.\<close>

fun drain :: "('q \<Rightarrow> 'q \<times> 'm \<times> bool) \<Rightarrow> nat \<Rightarrow> 'q \<Rightarrow> 'm list" where
  "drain dequeue 0 q = []"
| "drain dequeue (Suc n) q =
     (case dequeue q of (q', m, found) \<Rightarrow> if found then m # drain dequeue n q' else [])"

context mission_queue
begin

lemma drain_correct:
  "invar q \<Longrightarrow> mset (drain dequeue (size (contents q)) q) = contents q \<and>
     sorted_wrt (\<lambda>x y. \<not> before y x) (drain dequeue (size (contents q)) q)"
proof (induction "size (contents q)" arbitrary: q)
  case 0
  then show ?case by simp
next
  case (Suc n)
  then have "contents q \<noteq> {#}" by auto
  then obtain q' m where d: "dequeue q = (q', m, True)" using dequeue_nonempty Suc.prems by blast
  then have q': "invar q'" "contents q = add_mset m (contents q')" using dequeue_some Suc.prems by auto
  then have n: "n = size (contents q')" using Suc.hyps by simp
  have IH: "mset (drain dequeue n q') = contents q'"
    "sorted_wrt (\<lambda>x y. \<not> before y x) (drain dequeue n q')" using Suc.hyps(1) [OF n q'(1)] n by auto
  have "\<not> before x m" if "x \<in> set (drain dequeue n q')" for x
  proof -
    have "x \<in># contents q" using that IH(1) q'(2) by (metis in_multiset_in_set insert_iff set_mset_add_mset_insert)
    then show ?thesis using dequeue_first Suc.prems d by blast
  qed
  with IH d q'(2) Suc.hyps(2) show ?case by (simp flip: Suc.hyps(2))
qed

end

section \<open>The queue meets its contract\<close>

definition pq_invar :: "PriorityQueue \<Rightarrow> bool" where
  "pq_invar pq \<longleftrightarrow> is_heap precedes (mh pq)"

definition pq_contents :: "PriorityQueue \<Rightarrow> Mission multiset" where
  "pq_contents pq = mset (mh pq)"

lemma pq_invar_New [simp]: "pq_invar (New limit)" "pq_contents (New limit) = {#}"
  by (simp_all add: pq_invar_def pq_contents_def New_def mission_heap.is_heap_Init mission_heap.mset_Init)

lemma Dequeue_found:
  assumes "pq_invar pq" "Dequeue pq = (pq', m, True)"
  shows "pq_invar pq'" "pq_contents pq = add_mset m (pq_contents pq')" "m = mh pq ! 0"
    "agingLimit pq' = agingLimit pq"
proof -
  obtain h where h: "heap_Pop missionHeap_iface (mh pq) = (m, h)" "pq' = pq\<lparr>mh := h\<rparr>" and "mh pq \<noteq> []"
    using assms(2) by (auto simp: Dequeue_def split: if_splits prod.splits)
  then show "pq_invar pq'" "pq_contents pq = add_mset m (pq_contents pq')" "m = mh pq ! 0"
    "agingLimit pq' = agingLimit pq"
    using mission_heap.heap_Pop_correct [OF _ _ h(1)] assms(1) by (auto simp: pq_invar_def pq_contents_def)
qed

lemma Dequeue_none: "Dequeue pq = (pq', m, False) \<longleftrightarrow> mh pq = [] \<and> pq' = pq \<and> m = zero_Mission"
  by (auto simp: Dequeue_def split: prod.splits)

interpretation pq: mission_queue Enqueue Dequeue pq_contents pq_invar precedes
proof
  fix pq pq' m x
  assume inv: "pq_invar pq"
  show "pq_invar (Enqueue pq m)" "pq_contents (Enqueue pq m) = add_mset m (pq_contents pq)"
    using inv mission_heap.heap_Push_correct by (simp_all add: pq_invar_def pq_contents_def Enqueue_def)
  show "pq_contents pq = {#} \<and> pq' = pq" if "Dequeue pq = (pq', m, False)"
    using that by (simp add: Dequeue_none pq_contents_def)
  assume d: "Dequeue pq = (pq', m, True)"
  show "pq_invar pq' \<and> pq_contents pq = add_mset m (pq_contents pq')"
    using Dequeue_found [OF inv d] by simp
  show "\<not> precedes x m" if "x \<in># pq_contents pq"
    using that inv Dequeue_found(3) [OF inv d] mission_heap.heap_root
    by (fastforce simp: pq_contents_def pq_invar_def in_set_conv_nth)
qed

lemma agingLimit_Enqueue [simp]: "agingLimit (Enqueue pq m) = agingLimit pq"
  by (simp add: Enqueue_def)

section \<open>Ageing\<close>

definition promoted :: "uint64 \<Rightarrow> uint64 \<Rightarrow> Mission \<Rightarrow> Mission" where
  "promoted limit currentClock m =
     (if overaged limit currentClock m then m\<lparr>Payload := (Payload m)\<lparr>IsCritical := True\<rparr>\<rparr> else m)"

lemma promoted_critical: "IsCritical (Payload m) \<Longrightarrow> promoted limit c m = m"
  by (simp add: promoted_def)

lemma promote_scan_map: "fst (promote_scan limit c ms) = map (promoted limit c) ms"
  by (induction ms) (auto simp: promoted_def Let_def split: prod.splits)

lemma promote_scan_unchanged: "\<not> snd (promote_scan limit c ms) \<Longrightarrow> map (promoted limit c) ms = ms"
  by (induction ms) (auto simp: promoted_def Let_def split: prod.splits if_splits)

lemma antiStarvation_pass_contents:
  assumes "pq_invar pq"
  shows "pq_invar (antiStarvation_pass c pq)"
    "pq_contents (antiStarvation_pass c pq) = image_mset (promoted (agingLimit pq) c) (pq_contents pq)"
proof -
  obtain h b where h: "promote_scan (agingLimit pq) (Get c) (mh pq) = (h, b)" by fastforce
  have m: "h = map (promoted (agingLimit pq) c) (mh pq)" and u: "\<not> b \<Longrightarrow> h = mh pq"
    using promote_scan_map [of "agingLimit pq" c "mh pq"]
      promote_scan_unchanged [of "agingLimit pq" c "mh pq"] h by (auto simp: Get_def)
  show "pq_invar (antiStarvation_pass c pq)"
    using assms h u by (auto simp: antiStarvation_pass_def pq_invar_def mission_heap.is_heap_Init)
  show "pq_contents (antiStarvation_pass c pq) = image_mset (promoted (agingLimit pq) c) (pq_contents pq)"
    using h m by (auto simp: antiStarvation_pass_def pq_contents_def mission_heap.mset_Init)
qed

lemma agingLimit_pass [simp]: "agingLimit (antiStarvation_pass c pq) = agingLimit pq"
  by (auto simp: antiStarvation_pass_def Let_def split: prod.splits)

section \<open>Runs of the queue\<close>

text \<open>
  Any sequence of the queue's atomic operations, in the order in which the callers get its mutex:
  the queue reached and the missions handed out.
\<close>

datatype queue_op = OpEnqueue Mission | OpDequeue | OpAge uint64

fun queue_step :: "queue_op \<Rightarrow> PriorityQueue \<times> Mission list \<Rightarrow> PriorityQueue \<times> Mission list" where
  "queue_step (OpEnqueue m) (pq, out) = (Enqueue pq m, out)"
| "queue_step OpDequeue (pq, out) =
     (case Dequeue pq of (pq', m, found) \<Rightarrow> (pq', if found then out @ [m] else out))"
| "queue_step (OpAge c) (pq, out) = (antiStarvation_pass c pq, out)"

definition queue_run :: "uint64 \<Rightarrow> queue_op list \<Rightarrow> PriorityQueue \<times> Mission list" where
  "queue_run limit ops = fold queue_step ops (New limit, [])"

fun enqueued :: "queue_op list \<Rightarrow> Mission list" where
  "enqueued [] = []"
| "enqueued (OpEnqueue m # ops) = m # enqueued ops"
| "enqueued (OpDequeue # ops) = enqueued ops"
| "enqueued (OpAge c # ops) = enqueued ops"

lemma event_of_promoted [simp]: "event_of (promoted limit c m) = event_of m"
  by (simp add: promoted_def)

lemma queue_step_correct:
  assumes "pq_invar pq" "queue_step op (pq, out) = (pq', out')"
  shows "pq_invar pq' \<and>
    image_mset event_of (pq_contents pq') + image_mset event_of (mset out') =
    image_mset event_of (pq_contents pq) + image_mset event_of (mset out) +
      image_mset event_of (mset (enqueued [op]))"
proof (cases op)
  case (OpEnqueue m)
  then show ?thesis using assms by (auto simp: pq.invar_enqueue pq.contents_enqueue)
next
  case OpDequeue
  obtain q m f where d: "Dequeue pq = (q, m, f)" using prod_cases3 by blast
  show ?thesis
  proof (cases f)
    case True
    then show ?thesis using OpDequeue assms d pq.dequeue_some [of pq q m] by auto
  next
    case False
    then show ?thesis using OpDequeue assms d by (auto simp: Dequeue_none)
  qed
next
  case (OpAge c)
  then show ?thesis
    using assms by (auto simp: antiStarvation_pass_contents image_mset.compositionality comp_def)
qed

lemma queue_run_correct:
  assumes "pq_invar pq"
  shows "pq_invar (fst (fold queue_step ops (pq, out))) \<and>
    image_mset event_of (pq_contents (fst (fold queue_step ops (pq, out)))) +
      image_mset event_of (mset (snd (fold queue_step ops (pq, out)))) =
    image_mset event_of (pq_contents pq) + image_mset event_of (mset out) +
      image_mset event_of (mset (enqueued ops))"
  using assms
proof (induction ops arbitrary: pq out)
  case (Cons op ops)
  obtain pq' out' where s: "queue_step op (pq, out) = (pq', out')" by fastforce
  have "mset (enqueued (op # ops)) = mset (enqueued [op]) + mset (enqueued ops)" by (cases op) auto
  then show ?case
    using queue_step_correct [OF Cons.prems s] Cons.IH [of pq' out'] s by (simp add: ac_simps)
qed simp

lemma mission_lines_total: "\<exists>ls. mission_lines i ms = Inr ls \<and> length ls = length ms"
proof (induction ms arbitrary: i)
  case (Cons m ms)
  from Cons [of "Suc i"] obtain ls where "mission_lines (Suc i) ms = Inr ls" "length ls = length ms" by blast
  then show ?case by (simp add: slice_to_def)
qed simp
section \<open>Queued events\<close>

definition queued :: "PriorityQueue \<Rightarrow> string set" where
  "queued q = event_of ` set_mset (pq_contents q)"

lemma queued_Enqueue [simp]: "pq_invar q \<Longrightarrow> queued (Enqueue q m) = insert (event_of m) (queued q)"
  by (simp add: queued_def pq.contents_enqueue)

lemma queued_Dequeue:
  "pq_invar q \<Longrightarrow> Dequeue q = (q', m, True) \<Longrightarrow> pq_invar q' \<and> queued q = insert (event_of m) (queued q')"
  using pq.dequeue_some [of q q' m] by (simp add: queued_def)

lemma queued_aging: "pq_invar q \<Longrightarrow> pq_invar (antiStarvation_pass c q) \<and> queued (antiStarvation_pass c q) = queued q"
  using antiStarvation_pass_contents [of q c] by (auto simp: queued_def image_iff)

section \<open>The turn of a critical mission\<close>

lemma fold_queue_out: "fold queue_step ops (q, out @ new) = (\<lambda>(q', new'). (q', out @ new')) (fold queue_step ops (q, new))"
proof (induction ops arbitrary: q new)
  case (Cons op ops)
  show ?case
  proof (cases op)
    case OpDequeue
    obtain q' m f where "Dequeue q = (q', m, f)" using prod_cases3 by blast
    then show ?thesis using OpDequeue Cons.IH [of q' "new @ [m]"] Cons.IH [of q' new] by simp
  qed (use Cons.IH in simp_all)
qed simp

lemma queue_run_Cons:
  assumes "fold queue_step (op # ops) (q, []) = (q', out)"
  obtains q1 new out1 where "queue_step op (q, []) = (q1, new)" "fold queue_step ops (q1, []) = (q', out1)" "out = new @ out1"
proof -
  obtain q1 new where s: "queue_step op (q, []) = (q1, new)" by fastforce
  obtain q2 out1 where r: "fold queue_step ops (q1, []) = (q2, out1)" by fastforce
  have "fold queue_step ops (q1, new) = (q2, new @ out1)" using fold_queue_out [of ops q1 new "[]"] r by simp
  then show thesis using that s r assms by simp
qed

text \<open>
  One operation on a queue in which a critical mission waits: the mission stays, or a dequeue hands out a
  mission that it does not precede.
\<close>

lemma step_with_critical:
  assumes "pq_invar q" "m \<in># pq_contents q" "IsCritical (Payload m)" "queue_step op (q, []) = (q1, new)"
  obtains (kept) "new = []" "op \<noteq> OpDequeue" "pq_invar q1" "m \<in># pq_contents q1"
  | (out) d where "new = [d]" "op = OpDequeue" "pq_invar q1" "pq_contents q = add_mset d (pq_contents q1)" "\<not> precedes m d"
proof (cases op)
  case (OpEnqueue x)
  then show ?thesis using assms kept by (auto simp: pq.invar_enqueue pq.contents_enqueue)
next
  case OpDequeue
  obtain q2 d where d: "Dequeue q = (q2, d, True)" using pq.dequeue_nonempty [OF assms(1)] assms(2) by fastforce
  then show ?thesis using OpDequeue assms out pq.dequeue_some [OF assms(1) d] pq.dequeue_first [OF assms(1) d assms(2)] by auto
next
  case (OpAge c)
  have "m = promoted (agingLimit q) c m" using assms(3) by (simp add: promoted_critical)
  then have "m \<in># pq_contents (antiStarvation_pass c q)"
    using assms(2) antiStarvation_pass_contents(2) [OF assms(1), of c] by (metis image_eqI set_image_mset)
  then show ?thesis using OpAge assms(1,4) kept antiStarvation_pass_contents(1) [OF assms(1)] by auto
qed

lemma handed_out_before:
  assumes "pq_invar q" "m \<in># pq_contents q" "IsCritical (Payload m)" "fold queue_step ops (q, []) = (q', xs @ d # ys)" "m \<notin> set xs"
  shows "\<not> precedes m d"
  using assms
proof (induction ops arbitrary: q xs)
  case (Cons op ops)
  obtain q1 new out1 where s: "queue_step op (q, []) = (q1, new)" "fold queue_step ops (q1, []) = (q', out1)" "xs @ d # ys = new @ out1"
    using Cons.prems(4) by (rule queue_run_Cons)
  from Cons.prems(1-3) s(1) show ?case
  proof (cases rule: step_with_critical)
    case kept
    then show ?thesis using Cons.IH [of q1 xs] Cons.prems s by simp
  next
    case (out x)
    show ?thesis
    proof (cases xs)
      case Nil
      then show ?thesis using out s(3) by simp
    next
      case (Cons z zs)
      then have "m \<in># pq_contents q1" "out1 = zs @ d # ys" using out s(3) \<open>m \<in># pq_contents q\<close> \<open>m \<notin> set xs\<close> by auto
      then show ?thesis using Cons.IH [of q1 zs] Cons.prems(3,5) out s(2) Cons by simp
    qed
  qed
qed simp

text \<open>
  The missions that may be handed out before a critical one of clock \<open>c\<close>, and the state of a queue in which
  later scans add none.
\<close>

definition ahead :: "uint64 \<Rightarrow> Mission multiset \<Rightarrow> Mission multiset" where
  "ahead c ms = filter_mset (\<lambda>x. IsCritical (Payload x) \<and> LamportClock x \<le> c) ms"

definition scanned :: "uint64 \<Rightarrow> Mission multiset \<Rightarrow> bool" where
  "scanned c ms \<longleftrightarrow> (\<forall>x \<in># ms. IsCritical (Payload x) \<or> c < LamportClock x)"

lemma LamportClock_promoted [simp]: "LamportClock (promoted limit t x) = LamportClock x"
  by (simp add: promoted_def)

lemma scanned_promoted:
  assumes "scanned c ms"
  shows "scanned c (image_mset (promoted limit t) ms)" "size (ahead c (image_mset (promoted limit t) ms)) = size (ahead c ms)"
proof -
  show "scanned c (image_mset (promoted limit t) ms)" using assms by (auto simp: scanned_def promoted_def)
  have "filter_mset (\<lambda>x. IsCritical (Payload (promoted limit t x)) \<and> LamportClock (promoted limit t x) \<le> c) ms = ahead c ms"
    using assms unfolding ahead_def scanned_def by (intro filter_mset_cong) (auto simp: promoted_critical)
  then show "size (ahead c (image_mset (promoted limit t) ms)) = size (ahead c ms)"
    by (simp add: ahead_def filter_mset_image_mset)
qed

lemma older_overaged:
  assumes "overaged limit c m" "LamportClock x \<le> LamportClock m"
  shows "overaged limit c x"
proof -
  have "unat (c - LamportClock m) = unat c - unat (LamportClock m)" "unat (c - LamportClock x) = unat c - unat (LamportClock x)"
    using assms by (auto simp: overaged_def intro!: unat_sub order.strict_implies_order)
  then show ?thesis using assms by (simp add: overaged_def word_less_nat_alt word_le_nat_alt, arith)
qed

lemma aged_scanned:
  assumes "pq_invar pq" "overaged (agingLimit pq) c m"
  shows "scanned (LamportClock m) (pq_contents (antiStarvation_pass c pq))"
  using older_overaged [OF assms(2)] antiStarvation_pass_contents(2) [OF assms(1), of c]
  by (auto simp: scanned_def promoted_def not_less)

lemma handed_out_in_time:
  assumes "pq_invar q" "m \<in># pq_contents q" "IsCritical (Payload m)" "scanned (LamportClock m) (pq_contents q)"
    and "\<forall>x \<in> set (enqueued ops). LamportClock m < LamportClock x"
    and "size (ahead (LamportClock m) (pq_contents q)) \<le> count_list ops OpDequeue"
    and "fold queue_step ops (q, []) = (q', out)"
  shows "m \<in> set out"
  using assms
proof (induction ops arbitrary: q out)
  case Nil
  then have "m \<in># ahead (LamportClock m) (pq_contents q)" by (simp add: ahead_def)
  then show ?case using Nil.prems(6) by auto
next
  case (Cons op ops)
  let ?c = "LamportClock m"
  obtain q1 new out1 where s: "queue_step op (q, []) = (q1, new)" "fold queue_step ops (q1, []) = (q', out1)" "out = new @ out1"
    using Cons.prems(7) by (rule queue_run_Cons)
  from Cons.prems(1-3) s(1) show ?case
  proof (cases rule: step_with_critical)
    case kept
    have "scanned ?c (pq_contents q1) \<and> size (ahead ?c (pq_contents q1)) = size (ahead ?c (pq_contents q))"
    proof (cases op)
      case (OpEnqueue x)
      then show ?thesis using s(1) Cons.prems(1,4,5) by (auto simp: pq.contents_enqueue scanned_def ahead_def)
    next
      case (OpAge t)
      then show ?thesis using s(1) scanned_promoted [OF Cons.prems(4)] antiStarvation_pass_contents(2) [OF Cons.prems(1)] by auto
    qed (use kept in simp)
    moreover have "\<forall>x \<in> set (enqueued ops). ?c < LamportClock x" using Cons.prems(5) by (cases op) auto
    ultimately show ?thesis using Cons.IH [OF kept(3,4) Cons.prems(3) _ _ _ s(2)] Cons.prems(6) kept s(3) by simp
  next
    case (out d)
    have d: "IsCritical (Payload d)" "LamportClock d \<le> ?c"
      using out(5) Cons.prems(3) by (auto simp: precedes_def less_Priority_def split: if_splits)
    show ?thesis
    proof (cases "d = m")
      case False
      then have "m \<in># pq_contents q1" using out(4) Cons.prems(2) by simp
      moreover have "scanned ?c (pq_contents q1)" using Cons.prems(4) out(4) by (simp add: scanned_def)
      moreover have "size (ahead ?c (pq_contents q1)) \<le> count_list ops OpDequeue"
        using Cons.prems(6) out(2,4) d by (simp add: ahead_def)
      ultimately show ?thesis using Cons.IH [OF out(3) _ Cons.prems(3) _ _ _ s(2)] Cons.prems(5) out(2) s(3) by simp
    qed (use out s(3) in simp)
  qed
qed

section \<open>Properties\<close>

text \<open>C4. Whatever sequence of enqueues, dequeues and ageing passes a queue has gone through, dequeuing
  it until it is empty hands out exactly the missions it holds, critical ones first, then by
  Lamport clock, then by sensor name.\<close>

theorem queue_drains_by_priority:
  "mset (drain Dequeue (length (mh (fst (queue_run limit ops)))) (fst (queue_run limit ops))) =
     mset (mh (fst (queue_run limit ops))) \<and>
   sorted_wrt (\<lambda>a b. priority a \<le> priority b)
     (drain Dequeue (length (mh (fst (queue_run limit ops)))) (fst (queue_run limit ops)))"
proof -
  have "pq_invar (fst (queue_run limit ops))"
    using queue_run_correct [of "New limit" ops "[]"] by (simp add: queue_run_def)
  from pq.drain_correct [OF this] show ?thesis
    by (simp add: pq_contents_def precedes_def not_less)
qed

text \<open>C22. The queue neither loses nor invents missions: after any sequence of operations, the events of
  the missions it holds together with those it has handed out are exactly the events that were
  enqueued, with their multiplicity.\<close>

theorem queue_conserves_events:
  "image_mset event_of (mset (mh (fst (queue_run limit ops)))) +
     image_mset event_of (mset (snd (queue_run limit ops))) =
   image_mset event_of (mset (enqueued ops))"
  using queue_run_correct [of "New limit" ops "[]"]
  by (simp add: queue_run_def) (simp add: pq_contents_def)

text \<open>C27. No starvation. Let a waiting mission be older than the limit when the worker scans the queue; it is critical
  from then on. Through any later enqueues, dequeues and scans, every mission handed out before it is critical
  and has no later Lamport clock, so only missions at least as old overtake it. And it does get its turn: when
  every mission enqueued later has a later clock, as a newly stamped one has, it is handed out after at most as
  many dequeues as missions were waiting at the scan.\<close>

theorem aged_mission_not_overtaken:
  assumes "pq_invar pq" "m \<in> set (mh pq)" "overaged (agingLimit pq) globalClock m" "aged = promoted (agingLimit pq) globalClock m"
    and "fold queue_step ops (antiStarvation_pass globalClock pq, []) = (pq', out)"
  shows "(\<forall>xs d ys. out = xs @ d # ys \<and> aged \<notin> set xs \<longrightarrow> IsCritical (Payload d) \<and> LamportClock d \<le> LamportClock m) \<and>
    ((\<forall>x \<in> set (enqueued ops). LamportClock x > LamportClock m) \<and> length (mh pq) \<le> count_list ops OpDequeue \<longrightarrow>
      aged \<in> set out)"
proof -
  let ?q = "antiStarvation_pass globalClock pq"
  have q: "pq_invar ?q" "aged \<in># pq_contents ?q" "size (pq_contents ?q) = length (mh pq)"
    using antiStarvation_pass_contents [OF assms(1)] assms(2,4) by (auto simp: pq_contents_def)
  have m: "IsCritical (Payload aged)" "LamportClock aged = LamportClock m"
    using assms(3,4) by (simp_all add: promoted_def)
  show ?thesis
  proof (intro conjI allI impI; (elim conjE)?)
    fix xs d ys assume out: "out = xs @ d # ys" "aged \<notin> set xs"
    then have "\<not> precedes aged d" using handed_out_before [OF q(1,2) m(1)] assms(5) by blast
    with m show "IsCritical (Payload d)" "LamportClock d \<le> LamportClock m"
      by (auto simp: precedes_def less_Priority_def split: if_splits)
  next
    assume late: "\<forall>x \<in> set (enqueued ops). LamportClock m < LamportClock x" and n: "length (mh pq) \<le> count_list ops OpDequeue"
    have "size (ahead (LamportClock m) (pq_contents ?q)) \<le> count_list ops OpDequeue"
      using n q(3) size_filter_mset_lesseq le_trans unfolding ahead_def by metis
    then show "aged \<in> set out"
      using handed_out_in_time [OF q(1,2) m(1) _ _ _ assms(5)] aged_scanned [OF assms(1,3)] late m(2) by simp
  qed
qed

definition example_mission :: "string \<Rightarrow> bool \<Rightarrow> uint64 \<Rightarrow> Mission" where
  "example_mission e crit c =
     zero_Mission\<lparr>Payload := zero_SensorData\<lparr>EventID := e, SensorID := ''sensor-sec-01'', IsCritical := crit\<rparr>,
       LamportClock := c\<rparr>"

theorem aged_mission_not_overtaken_witness:
  "promoted 5 20 (example_mission ''old-event'' False 3) \<in> set (snd (fold queue_step
     [OpDequeue, OpEnqueue (example_mission ''late-event'' True 21), OpDequeue]
     (antiStarvation_pass 20 (Enqueue (Enqueue (New 5) (example_mission ''old-event'' False 3)) (example_mission ''new-event'' True 19)), [])))"
proof -
  let ?m = "example_mission ''old-event'' False 3" and ?pq = "Enqueue (Enqueue (New 5) (example_mission ''old-event'' False 3)) (example_mission ''new-event'' True 19)"
  let ?ops = "[OpDequeue, OpEnqueue (example_mission ''late-event'' True 21), OpDequeue]"
  have inv: "pq_invar ?pq" by (intro pq.invar_enqueue pq_invar_New)
  have "?m \<in># pq_contents ?pq" by (simp add: pq.contents_enqueue pq.invar_enqueue)
  then have old: "?m \<in> set (mh ?pq)" "overaged (agingLimit ?pq) 20 ?m"
    by (simp_all add: pq_contents_def overaged_def example_mission_def New_def)
  have "size (pq_contents ?pq) = 2" by (simp add: pq.contents_enqueue pq.invar_enqueue)
  then have n: "length (mh ?pq) \<le> count_list ?ops OpDequeue" by (simp add: pq_contents_def)
  have late: "\<forall>x \<in> set (enqueued ?ops). LamportClock x > LamportClock ?m" by (simp add: example_mission_def)
  have "agingLimit ?pq = 5" by (simp add: New_def)
  with aged_mission_not_overtaken [OF inv old refl prod.collapse [symmetric]] late n show ?thesis by metis
qed

text \<open>Logging the queue never fails: the guard on the event's length keeps the slice in range, so
  \<open>PrintAllMissions\<close> shows one line per waiting mission whatever the events are called.\<close>

lemma PrintAllMissions_total:
  "\<exists>ls. PrintAllMissions mq = Inr ls \<and> length ls = length (mh mq)"
  using mission_lines_total by (simp add: PrintAllMissions_def)

end
