(* ===== verification/Broker_Buffers.thy ===== *)
theory Broker_Buffers
  imports Sector_Router Mission_Queue
begin

text \<open>
  The two side buffers of a broker: the shadow buffer of \<open>src/cmd/broker/shadowbuffer.go\<close> with the missions
  other brokers are responsible for, and the waiting room of \<open>src/cmd/broker/unverified_buffer.go\<close> with the missions
  the ledger has not validated yet. A rescue and a janitor pass visit the keys in an order the
  run-time chooses; readings of the clock and of the network interfaces are arguments.
\<close>

section \<open>The shadow buffer\<close>

record ShadowBufferManager =
  Buffer :: "string \<rightharpoonup> Mission"

definition NewShadowBufferManager :: ShadowBufferManager where
  "NewShadowBufferManager = \<lparr>Buffer = Map.empty\<rparr>"

text \<open>The test of \<open>RescueOrphanedMissions\<close>: this machine is the present owner of the mission's sector.\<close>

definition owned_here :: "'r consistent \<Rightarrow> ifaddr list option \<Rightarrow> 'r SectorRouter \<Rightarrow> Mission \<Rightarrow> bool" where
  "owned_here C addrs router mission \<longleftrightarrow> isLocalIP addrs (GetOwnerIP C router (SectorID (Payload mission)))"

fun rescue_range ::
    "(Mission \<Rightarrow> bool) \<Rightarrow> string list \<Rightarrow> ShadowBufferManager \<times> PriorityQueue
      \<Rightarrow> (ShadowBufferManager \<times> PriorityQueue, unit) outcome" where
  "rescue_range here [] s = Returned s ()"
| "rescue_range here (key # keys) (sb, q) =
     (case Buffer sb key of
        None \<Rightarrow> rescue_range here keys (sb, q)
      | Some mission \<Rightarrow>
          if here mission
          then let q' = Enqueue q mission; sb' = sb\<lparr>Buffer := (Buffer sb)(key := None)\<rparr>
               in bind_outcome (log_prefix8 (sb', q') (event_of mission)) (\<lambda>s _. rescue_range here keys s)
          else rescue_range here keys (sb, q))"

definition RescueOrphanedMissions ::
    "'r consistent \<Rightarrow> ifaddr list option \<Rightarrow> 'r SectorRouter \<Rightarrow> string list \<Rightarrow> ShadowBufferManager \<Rightarrow> PriorityQueue
      \<Rightarrow> (ShadowBufferManager \<times> PriorityQueue, unit) outcome" where
  "RescueOrphanedMissions C addrs router order sb missionQueue =
     rescue_range (owned_here C addrs router) order (sb, missionQueue)"

definition shadow_Store :: "ShadowBufferManager \<Rightarrow> Mission \<Rightarrow> (ShadowBufferManager, unit) outcome" where
  "shadow_Store sb mission =
     log_prefix8 (sb\<lparr>Buffer := (Buffer sb)(event_of mission \<mapsto> mission)\<rparr>) (event_of mission)"

definition ClearMission :: "ShadowBufferManager \<Rightarrow> string \<Rightarrow> (ShadowBufferManager, unit) outcome" where
  "ClearMission sb eventID = log_prefix8 (sb\<lparr>Buffer := (Buffer sb)(eventID := None)\<rparr>) eventID"

section \<open>The waiting room\<close>

record UnverifiedRecord =
  unv_Mission :: Mission
  unv_ExpiresAt :: instant

record UnverifiedBufferManager =
  unv_buffer :: "string \<rightharpoonup> UnverifiedRecord"

definition NewUnverifiedBufferManager :: UnverifiedBufferManager where
  "NewUnverifiedBufferManager = \<lparr>unv_buffer = Map.empty\<rparr>"

definition unverified_Store :: "instant \<Rightarrow> UnverifiedBufferManager \<Rightarrow> Mission \<Rightarrow> UnverifiedBufferManager" where
  "unverified_Store now bm mission =
     bm\<lparr>unv_buffer := (unv_buffer bm)(event_of mission \<mapsto> \<lparr>unv_Mission = mission, unv_ExpiresAt = now + 10 * Second\<rparr>)\<rparr>"

definition RetrieveAndRemove :: "UnverifiedBufferManager \<Rightarrow> string \<Rightarrow> UnverifiedBufferManager \<times> Mission \<times> bool" where
  "RetrieveAndRemove bm eventID =
     (case unv_buffer bm eventID of
        Some record \<Rightarrow> (bm\<lparr>unv_buffer := (unv_buffer bm)(eventID := None)\<rparr>, unv_Mission record, True)
      | None \<Rightarrow> (bm, zero_Mission, False))"

text \<open>One tick of \<open>startJanitor\<close>.\<close>

fun startJanitor_range ::
    "instant \<Rightarrow> string list \<Rightarrow> UnverifiedBufferManager \<Rightarrow> (UnverifiedBufferManager, unit) outcome" where
  "startJanitor_range now [] bm = Returned bm ()"
| "startJanitor_range now (key # keys) bm =
     (case unv_buffer bm key of
        None \<Rightarrow> startJanitor_range now keys bm
      | Some record \<Rightarrow>
          if now > unv_ExpiresAt record
          then bind_outcome (log_prefix8 (bm\<lparr>unv_buffer := (unv_buffer bm)(key := None)\<rparr>) key)
                 (\<lambda>bm _. startJanitor_range now keys bm)
          else startJanitor_range now keys bm)"

section \<open>What a rescue does\<close>

text \<open>Missions are filed under their own events.\<close>

definition shadow_inv :: "ShadowBufferManager \<Rightarrow> bool" where
  "shadow_inv sb \<longleftrightarrow> finite (dom (Buffer sb)) \<and> (\<forall>e m. Buffer sb e = Some m \<longrightarrow> event_of m = e)"

lemma shadow_inv_New [simp]: "shadow_inv NewShadowBufferManager"
  by (simp add: shadow_inv_def NewShadowBufferManager_def)

lemma shadow_inv_delete: "shadow_inv sb \<Longrightarrow> shadow_inv (sb\<lparr>Buffer := (Buffer sb)(k := None)\<rparr>)"
  by (auto simp: shadow_inv_def split: if_splits)

lemma shadow_inv_Store: "shadow_inv sb \<Longrightarrow> shadow_inv (out_state (shadow_Store sb m))"
  by (auto simp: shadow_inv_def shadow_Store_def split: if_splits)

text \<open>Whatever the loop does, it ends with each mission in exactly one of the two places.\<close>

lemma rescue_range_conserves:
  assumes "shadow_inv sb" "pq_invar q" "out_state (rescue_range here keys (sb, q)) = (sb', q')"
  shows "shadow_inv sb' \<and> pq_invar q' \<and>
    map_values (Buffer sb') + pq_contents q' = map_values (Buffer sb) + pq_contents q"
  using assms
proof (induction keys arbitrary: sb q)
  case (Cons key keys)
  show ?case
  proof (cases "\<exists>m. Buffer sb key = Some m \<and> here m")
    case True
    then obtain m where m: "Buffer sb key = Some m" "here m" by blast
    let ?sb = "sb\<lparr>Buffer := (Buffer sb)(key := None)\<rparr>" and ?q = "Enqueue q m"
    have inv: "shadow_inv ?sb" "pq_invar ?q" "pq_contents ?q = add_mset m (pq_contents q)"
      using Cons.prems by (auto simp: shadow_inv_delete pq.invar_enqueue pq.contents_enqueue)
    have v: "map_values (Buffer sb) = add_mset m (map_values (Buffer ?sb))"
      using map_values_delete [where m = "Buffer sb", OF _ m(1)] Cons.prems(1) by (simp add: shadow_inv_def)
    show ?thesis
    proof (cases "loggable (event_of m)")
      case True
      then have "out_state (rescue_range here keys (?sb, ?q)) = (sb', q')" using Cons.prems(3) m by simp
      from Cons.IH [OF inv(1,2) this] inv(3) v show ?thesis by (simp add: fun_upd_def)
    next
      case False
      then have "sb' = ?sb" "q' = ?q" using Cons.prems(3) m by auto
      then show ?thesis using inv v by (simp add: fun_upd_def)
    qed
  next
    case False
    then show ?thesis using Cons by (auto split: option.splits)
  qed
qed simp

text \<open>It never takes a mission out of the queue.\<close>

lemma rescue_range_mono:
  "pq_invar q \<Longrightarrow> pq_contents q \<subseteq># pq_contents (snd (out_state (rescue_range here keys (sb, q))))"
proof (induction keys arbitrary: sb q)
  case (Cons key keys)
  have "pq_contents q \<subseteq># pq_contents (snd (out_state (rescue_range here keys (sb', Enqueue q m))))" for sb' m
  proof -
    have "pq_contents q \<subseteq># pq_contents (Enqueue q m)" using Cons.prems by (simp add: pq.contents_enqueue)
    also have "\<dots> \<subseteq># pq_contents (snd (out_state (rescue_range here keys (sb', Enqueue q m))))"
      by (rule Cons.IH) (use Cons.prems in \<open>simp add: pq.invar_enqueue\<close>)
    finally show ?thesis .
  qed
  moreover have "pq_contents q \<subseteq># pq_contents (Enqueue q m)" for m using Cons.prems by (simp add: pq.contents_enqueue)
  ultimately show ?case using Cons.IH [OF Cons.prems, of sb]
    by (cases "Buffer sb key"; cases "loggable (event_of (the (Buffer sb key)))") (auto simp: Let_def)
qed simp

lemma rescue_range_Returned:
  assumes "\<forall>e m. Buffer sb e = Some m \<longrightarrow> here m \<longrightarrow> loggable (event_of m)"
  shows "\<exists>sb' q'. rescue_range here keys (sb, q) = Returned (sb', q') () \<and>
    (\<forall>e. Buffer sb' e = (case Buffer sb e of None \<Rightarrow> None | Some m \<Rightarrow> if e \<in> set keys \<and> here m then None else Some m))"
  using assms
proof (induction keys arbitrary: sb q)
  case (Cons key keys)
  show ?case
  proof (cases "\<exists>m. Buffer sb key = Some m \<and> here m")
    case True
    then obtain m where m: "Buffer sb key = Some m" "here m" by blast
    let ?sb = "sb\<lparr>Buffer := (Buffer sb)(key := None)\<rparr>"
    have "\<forall>e x. Buffer ?sb e = Some x \<longrightarrow> here x \<longrightarrow> loggable (event_of x)" using Cons.prems by auto
    from Cons.IH [OF this, of "Enqueue q m"] m Cons.prems show ?thesis by (fastforce split: option.splits)
  next
    case False
    then show ?thesis using Cons.IH [OF Cons.prems, of q] by (fastforce split: option.splits)
  qed
qed (auto split: option.splits)

section \<open>The waiting room's records\<close>

lemma startJanitor_buffer:
  "startJanitor_range now keys bm = Returned bm' () \<Longrightarrow>
   unv_buffer bm' k = (case unv_buffer bm k of None \<Rightarrow> None
     | Some r \<Rightarrow> if k \<in> set keys \<and> now > unv_ExpiresAt r then None else Some r)"
proof (induction keys arbitrary: bm)
  case (Cons key keys)
  show ?case
  proof (cases "\<exists>r. unv_buffer bm key = Some r \<and> now > unv_ExpiresAt r")
    case True
    then have "loggable key" and "startJanitor_range now keys (bm\<lparr>unv_buffer := (unv_buffer bm)(key := None)\<rparr>) = Returned bm' ()"
      using Cons.prems by (cases "loggable key"; auto)+
    from Cons.IH [OF this(2)] True show ?thesis by (auto split: option.splits)
  next
    case False
    then have "startJanitor_range now keys bm = Returned bm' ()" using Cons.prems by (auto split: option.splits)
    from Cons.IH [OF this] False show ?thesis by (auto split: option.splits)
  qed
qed (simp split: option.splits)

lemma startJanitor_returns:
  "(\<forall>k r. unv_buffer bm k = Some r \<longrightarrow> now > unv_ExpiresAt r \<longrightarrow> loggable k) \<Longrightarrow>
   \<exists>bm'. startJanitor_range now keys bm = Returned bm' ()"
  by (induction keys arbitrary: bm) (auto split: option.splits)

section \<open>Properties\<close>

text \<open>C24. A rescue after a change of topology takes over exactly the missions this broker now owns: each leaves
  the shadow buffer and enters the queue once, every other one stays where it is, and nothing is
  lost or duplicated, in whatever order the buffer is visited.\<close>

theorem rescue_moves_owned_missions:
  assumes "shadow_inv sb" "pq_invar q" "range_order (Buffer sb) order"
    and "\<forall>e m. Buffer sb e = Some m \<longrightarrow> loggable e"
  shows "\<exists>sb' q'. RescueOrphanedMissions C addrs router order sb q = Returned (sb', q') () \<and>
    shadow_inv sb' \<and> pq_invar q' \<and>
    (\<forall>e. Buffer sb' e = (case Buffer sb e of None \<Rightarrow> None | Some m \<Rightarrow> if owned_here C addrs router m then None else Some m)) \<and>
    map_values (Buffer sb') + pq_contents q' = map_values (Buffer sb) + pq_contents q"
proof -
  let ?here = "owned_here C addrs router"
  have "\<forall>e m. Buffer sb e = Some m \<longrightarrow> ?here m \<longrightarrow> loggable (event_of m)"
    using assms(1,4) by (auto simp: shadow_inv_def)
  from rescue_range_Returned [OF this, of order q] obtain sb' q'
    where r: "rescue_range ?here order (sb, q) = Returned (sb', q') ()"
      "\<forall>e. Buffer sb' e = (case Buffer sb e of None \<Rightarrow> None | Some m \<Rightarrow> if e \<in> set order \<and> ?here m then None else Some m)"
    by blast
  moreover have "Buffer sb e = Some m \<Longrightarrow> e \<in> set order" for e m using range_order_mem [OF assms(3)] by simp
  ultimately show ?thesis
    using rescue_range_conserves [OF assms(1,2), of ?here order sb' q']
    by (fastforce simp: RescueOrphanedMissions_def split: option.splits)
qed

text \<open>The machine of the closed examples has one public address.\<close>

definition example_addrs :: "ifaddr list option" where
  "example_addrs = Some [IPNet ''127.0.0.1'' True True, IPNet ''10.0.0.1'' False True]"

definition example_router :: "string list \<Rightarrow> string list SectorRouter" where
  "example_router ips = watch example_ring (NewSectorRouter example_ring 25 ''tasks.broker'') [ips]"

lemma example_owner: "GetOwnerIP example_ring (example_router [ip]) s = ip"
  by (simp add: example_router_def GetOwnerIP_def WatchTopology_pass_def NewSectorRouter_def example_ring_def Let_def)

theorem rescue_moves_owned_missions_witness:
  "\<exists>sb' q'. RescueOrphanedMissions example_ring example_addrs (example_router [''10.0.0.1'']) [''event-0001'']
      (out_state (shadow_Store NewShadowBufferManager (example_mission ''event-0001'' True 3))) (New 100) = Returned (sb', q') () \<and>
     Buffer sb' ''event-0001'' = None"
proof -
  let ?m = "example_mission ''event-0001'' True 3"
  let ?sb = "out_state (shadow_Store NewShadowBufferManager ?m)"
  have e: "event_of ?m = ''event-0001''" by (simp add: example_mission_def)
  then have b: "Buffer ?sb = [''event-0001'' \<mapsto> ?m]" by (simp add: shadow_Store_def NewShadowBufferManager_def)
  have o: "range_order (Buffer ?sb) [''event-0001'']" and l: "\<forall>e m. Buffer ?sb e = Some m \<longrightarrow> loggable e"
    by (auto simp: b range_order_def loggable_def split: if_splits)
  have "owned_here example_ring example_addrs (example_router [''10.0.0.1'']) ?m"
    by (simp add: owned_here_def example_owner isLocalIP_def getLocalIP_def example_addrs_def)
  with rescue_moves_owned_missions [OF shadow_inv_Store [OF shadow_inv_New] pq_invar_New(1) o l]
  show ?thesis unfolding b by fastforce
qed

end
