(* ===== verification/HTTP_Client.thy ===== *)
theory HTTP_Client
  imports Prelude
begin

text \<open>
  The retrying client of \<open>src/pkg/server/http_client.go\<close>. The network is an argument: what happens to
  the request at each attempt. A call gives its result together with the pauses it made. The
  reference \<open>spec_request\<close> says in one line what the two loops do, and the properties bound
  attempts and waiting time.
\<close>

section \<open>Answers of a handler\<close>

record response =
  resp_status :: nat
  resp_body :: bytes

abbreviation reply :: "nat \<Rightarrow> bytes \<Rightarrow> response" where
  "reply status body \<equiv> \<lparr>resp_status = status, resp_body = body\<rparr>"

text \<open>\<open>http.Error\<close> ends the text with a newline.\<close>

definition http_Error :: "string \<Rightarrow> nat \<Rightarrow> response" where
  "http_Error text status = reply status (text @ [CHR 0x0A])"

section \<open>The client\<close>

record HTTPClient =
  maxRetries :: nat
  initialBackoff :: duration
  maxBackoff :: duration
  hc_timeout :: duration

definition NewHTTPClient :: "duration \<Rightarrow> HTTPClient" where
  "NewHTTPClient timeout =
     \<lparr>maxRetries = 3, initialBackoff = 100 * Millisecond, maxBackoff = 5 * Second, hc_timeout = timeout\<rparr>"

text \<open>One attempt: the request cannot be built, nobody answers, or a status and a body arrive.\<close>

datatype attempt = CannotCreate | NoConnection | Answer nat bytes

datatype last_error = NoError | CreateFailed | ConnectionFailed | ServerReturned nat

datatype http_error = MarshalFailed | DecodeFailed | HTTPStatus nat bytes | Exhausted nat last_error

text \<open>
  \<open>time.Duration(float64(backoff) * 1.5)\<close>, capped. The product is exact for durations below
  \<open>2 ^ 51\<close> nanoseconds (26 days).
\<close>

definition next_backoff :: "HTTPClient \<Rightarrow> duration \<Rightarrow> duration" where
  "next_backoff hc backoff =
     (let b = (backoff * 3) div 2 in if b > maxBackoff hc then maxBackoff hc else b)"

definition post_retryable :: "nat \<Rightarrow> bool" where
  "post_retryable status \<longleftrightarrow> 500 \<le> status \<or> status = 408 \<or> status = 429 \<or> status = 503"

definition get_retryable :: "nat \<Rightarrow> bool" where
  "get_retryable status \<longleftrightarrow> 500 \<le> status \<or> status = 408"

text \<open>
  The last part of an attempt that is not repeated. \<open>result\<close> is the decoder of the expected answer,
  or nothing when the caller passes \<open>nil\<close>.
\<close>

definition read_answer :: "(bytes \<Rightarrow> 'r option) option \<Rightarrow> nat \<Rightarrow> bytes \<Rightarrow> http_error + 'r option" where
  "read_answer result status body =
     (if 400 \<le> status then Inl (HTTPStatus status body)
      else case result of
             None \<Rightarrow> Inr None
           | Some decode \<Rightarrow> (case decode body of None \<Rightarrow> Inl DecodeFailed | Some v \<Rightarrow> Inr (Some v)))"

text \<open>\<open>for attempt := 0; attempt <= hc.maxRetries; attempt++\<close>, with the number of attempts left.\<close>

fun request_loop ::
    "HTTPClient \<Rightarrow> (nat \<Rightarrow> bool) \<Rightarrow> (bytes \<Rightarrow> 'r option) option \<Rightarrow> (nat \<Rightarrow> attempt) \<Rightarrow> nat \<Rightarrow> nat \<Rightarrow> duration \<Rightarrow> last_error
      \<Rightarrow> (http_error + 'r option) \<times> duration list" where
  "request_loop hc retryable result net attempt 0 backoff lastErr = (Inl (Exhausted (maxRetries hc) lastErr), [])"
| "request_loop hc retryable result net attempt (Suc left) backoff lastErr =
     (let sleeps = (if 0 < attempt then [backoff] else []);
          backoff' = (if 0 < attempt then next_backoff hc backoff else backoff);
          again = (\<lambda>err. let (r, ss) = request_loop hc retryable result net (Suc attempt) left backoff' err in (r, sleeps @ ss))
      in case net attempt of
           CannotCreate \<Rightarrow> again CreateFailed
         | NoConnection \<Rightarrow> again ConnectionFailed
         | Answer status body \<Rightarrow>
             if retryable status then again (ServerReturned status)
             else (read_answer result status body, sleeps))"

declare request_loop.simps(2) [simp del]

text \<open>\<open>payload\<close> is the serialised body, or nothing when serialising it fails.\<close>

definition PostJSON ::
    "HTTPClient \<Rightarrow> bytes option \<Rightarrow> (nat \<Rightarrow> attempt) \<Rightarrow> (bytes \<Rightarrow> 'r option) option \<Rightarrow> (http_error + 'r option) \<times> duration list" where
  "PostJSON hc payload net result =
     (case payload of
        None \<Rightarrow> (Inl MarshalFailed, [])
      | Some _ \<Rightarrow> request_loop hc post_retryable result net 0 (Suc (maxRetries hc)) (initialBackoff hc) NoError)"

definition GetJSON ::
    "HTTPClient \<Rightarrow> (nat \<Rightarrow> attempt) \<Rightarrow> (bytes \<Rightarrow> 'r option) option \<Rightarrow> (http_error + 'r option) \<times> duration list" where
  "GetJSON hc net result =
     request_loop hc get_retryable result net 0 (Suc (maxRetries hc)) (initialBackoff hc) NoError"

section \<open>Reference\<close>

fun transient :: "(nat \<Rightarrow> bool) \<Rightarrow> attempt \<Rightarrow> bool" where
  "transient retryable CannotCreate = True"
| "transient retryable NoConnection = True"
| "transient retryable (Answer status body) = retryable status"

fun error_of :: "attempt \<Rightarrow> last_error" where
  "error_of CannotCreate = CreateFailed"
| "error_of NoConnection = ConnectionFailed"
| "error_of (Answer status body) = ServerReturned status"

fun final_answer :: "(bytes \<Rightarrow> 'r option) option \<Rightarrow> attempt \<Rightarrow> http_error + 'r option" where
  "final_answer result (Answer status body) = read_answer result status body"
| "final_answer result a = Inl (Exhausted 0 (error_of a))"

text \<open>The pauses before the second, third, \<open>\<dots>\<close> attempt.\<close>

fun backoffs :: "HTTPClient \<Rightarrow> duration \<Rightarrow> nat \<Rightarrow> duration list" where
  "backoffs hc b 0 = []"
| "backoffs hc b (Suc n) = b # backoffs hc (next_backoff hc b) n"

text \<open>The answer of the first attempt that is not transient, or exhaustion with the last error.\<close>

definition spec_request ::
    "HTTPClient \<Rightarrow> (nat \<Rightarrow> bool) \<Rightarrow> (bytes \<Rightarrow> 'r option) option \<Rightarrow> (nat \<Rightarrow> attempt) \<Rightarrow> (http_error + 'r option) \<times> duration list" where
  "spec_request hc retryable result net =
     (case find (\<lambda>i. \<not> transient retryable (net i)) [0..<Suc (maxRetries hc)] of
        Some i \<Rightarrow> (final_answer result (net i), backoffs hc (initialBackoff hc) i)
      | None \<Rightarrow> (Inl (Exhausted (maxRetries hc) (error_of (net (maxRetries hc)))),
                 backoffs hc (initialBackoff hc) (maxRetries hc)))"

lemma length_backoffs [simp]: "length (backoffs hc b n) = n"
  by (induction n arbitrary: b) auto

lemma transient_step:
  "transient retryable (net a) \<Longrightarrow>
   request_loop hc retryable result net a (Suc left) b err =
     (let (r, ss) = request_loop hc retryable result net (Suc a) left (if 0 < a then next_backoff hc b else b) (error_of (net a))
      in (r, (if 0 < a then [b] else []) @ ss))"
  by (cases "net a") (auto simp: Let_def request_loop.simps(2))

lemma final_step:
  "\<not> transient retryable (net a) \<Longrightarrow>
   request_loop hc retryable result net a (Suc left) b err = (final_answer result (net a), if 0 < a then [b] else [])"
  by (cases "net a") (auto simp: Let_def request_loop.simps(2))

text \<open>The loop from the second attempt on, where every attempt is preceded by a pause.\<close>

lemma request_loop_later:
  "0 < a \<Longrightarrow> request_loop hc retryable result net a n b err =
     (case find (\<lambda>i. \<not> transient retryable (net i)) [a..<a + n] of
        Some i \<Rightarrow> (final_answer result (net i), backoffs hc b (Suc i - a))
      | None \<Rightarrow> (Inl (Exhausted (maxRetries hc) (if n = 0 then err else error_of (net (a + n - 1)))), backoffs hc b n))"
proof (induction n arbitrary: a b err)
  case (Suc n)
  have upt: "[a..<a + Suc n] = a # [Suc a..<Suc a + n]" by (simp add: upt_conv_Cons)
  show ?case
  proof (cases "transient retryable (net a)")
    case True
    have "find (\<lambda>i. \<not> transient retryable (net i)) [Suc a..<Suc a + n] = Some i \<Longrightarrow> Suc i - a = Suc (Suc i - Suc a)" for i
      by (auto simp: find_Some_iff simp del: upt_Suc)
    then show ?thesis
      unfolding upt transient_step [where net = net and a = a, OF True] using True Suc.prems Suc.IH [of "Suc a"]
      by (auto simp: Let_def split: option.splits)
  next
    case False
    then show ?thesis unfolding upt final_step [where net = net and a = a, OF False] using Suc.prems by (simp add: Suc_diff_le)
  qed
qed simp

lemma request_loop_spec:
  "request_loop hc retryable result net 0 (Suc (maxRetries hc)) (initialBackoff hc) err = spec_request hc retryable result net"
proof (cases "transient retryable (net 0)")
  case True
  have upt: "[0..<Suc (maxRetries hc)] = 0 # [1..<1 + maxRetries hc]" by (simp add: upt_conv_Cons)
  show ?thesis
    unfolding spec_request_def upt transient_step [where net = net and a = 0, OF True] using True
    by (auto simp: request_loop_later [of "Suc 0"] Let_def split: option.splits)
next
  case False
  have upt: "[0..<Suc (maxRetries hc)] = 0 # [1..<1 + maxRetries hc]" by (simp add: upt_conv_Cons)
  show ?thesis unfolding spec_request_def upt final_step [where net = net and a = 0, OF False] using False by simp
qed

section \<open>Properties\<close>

text \<open>C23. The retry loops do what they are meant to: a POST gives the answer of the first attempt, among the
  first four, that is not a transient failure, after exactly the pauses between those attempts,
  and otherwise fails with the error of the last attempt; client errors are never retried.\<close>

theorem PostJSON_equiv:
  "PostJSON hc (Some payload) net result = spec_request hc post_retryable result net \<and>
   GetJSON hc net result = spec_request hc get_retryable result net"
  by (simp add: PostJSON_def GetJSON_def request_loop_spec)

text \<open>A call of the default client makes at most three pauses, of 100, 150 and 225 milliseconds in this
  order, so retrying never adds more than 475 milliseconds of waiting to a call.\<close>

lemma default_client_waits_little:
  "\<exists>n \<le> 3. snd (PostJSON (NewHTTPClient timeout) payload net result) =
     take n [100 * Millisecond, 150 * Millisecond, 225 * Millisecond]
   \<and> sum_list (snd (PostJSON (NewHTTPClient timeout) payload net result)) \<le> 475 * Millisecond"
proof -
  let ?hc = "NewHTTPClient timeout"
  have b: "backoffs ?hc (initialBackoff ?hc) n = take n [100 * Millisecond, 150 * Millisecond, 225 * Millisecond]" if "n \<le> 3" for n
  proof -
    have "n = 0 \<or> n = 1 \<or> n = 2 \<or> n = 3" using that by auto
    then show ?thesis by (auto simp: NewHTTPClient_def next_backoff_def numeral_2_eq_2 numeral_3_eq_3)
  qed
  have "\<exists>n \<le> 3. snd (spec_request ?hc post_retryable result net) = backoffs ?hc (initialBackoff ?hc) n"
  proof (cases "find (\<lambda>i. \<not> transient post_retryable (net i)) [0..<Suc (maxRetries ?hc)]")
    case (Some i)
    then have "i \<le> 3" by (auto simp: find_Some_iff NewHTTPClient_def simp del: upt_Suc)
    with Some show ?thesis by (auto simp: spec_request_def simp del: upt_Suc)
  next
    case None
    then show ?thesis by (auto simp: spec_request_def NewHTTPClient_def simp del: upt_Suc)
  qed
  moreover have "snd (PostJSON ?hc payload net result) = [] \<or>
      snd (PostJSON ?hc payload net result) = snd (spec_request ?hc post_retryable result net)"
    by (cases payload) (simp_all add: PostJSON_def request_loop_spec)
  ultimately obtain n where n: "n \<le> 3"
    "snd (PostJSON ?hc payload net result) = take n [100 * Millisecond, 150 * Millisecond, 225 * Millisecond]"
    using b by (metis take_0 zero_le)
  then have "n = 0 \<or> n = 1 \<or> n = 2 \<or> n = 3" by auto
  then have "sum_list (snd (PostJSON ?hc payload net result)) \<le> 475 * Millisecond" using n(2) by auto
  with n show ?thesis by blast
qed

end
