(* ===== verification/Dedup.thy ===== *)
theory Dedup
  imports Prelude
begin

text \<open>
  The contract shared by the two places that refuse duplicates: the broker's idempotency filter,
  which drops an event it has already seen, and the ledger, which applies a transaction once. A
  machine accepts or refuses each input; it accepts only inputs whose key it has not seen,
  remembers the keys of what it accepts, and forgets none.
\<close>

text \<open>The inputs a machine accepts out of a sequence, in order, and the state it ends in.\<close>

fun accepted_run :: "('s \<Rightarrow> 'x \<Rightarrow> 's \<times> bool) \<Rightarrow> 's \<Rightarrow> 'x list \<Rightarrow> 's \<times> 'x list" where
  "accepted_run step s [] = (s, [])"
| "accepted_run step s (x # xs) =
     (let (s', ok) = step s x; (s'', ys) = accepted_run step s' xs
      in (s'', if ok then x # ys else ys))"

locale dedup =
  fixes step :: "'s \<Rightarrow> 'x \<Rightarrow> 's \<times> bool"
    and key :: "'x \<Rightarrow> 'k"
    and seen :: "'s \<Rightarrow> 'k set"
  assumes accept_fresh: "step s x = (s', True) \<Longrightarrow> key x \<notin> seen s"
    and accept_remembers: "step s x = (s', True) \<Longrightarrow> key x \<in> seen s'"
    and never_forgets: "step s x = (s', ok) \<Longrightarrow> seen s \<subseteq> seen s'"
begin

lemma run_never_forgets: "seen s \<subseteq> seen (fst (accepted_run step s xs))"
proof (induction xs arbitrary: s)
  case (Cons x xs)
  obtain s' ok where s': "step s x = (s', ok)" by fastforce
  then have "seen s \<subseteq> seen s'" by (rule never_forgets)
  with Cons [of s'] s' show ?case by (auto simp: Let_def split: prod.splits)
qed simp

lemma run_accepts_fresh: "y \<in> set (snd (accepted_run step s xs)) \<Longrightarrow> key y \<notin> seen s"
proof (induction xs arbitrary: s)
  case (Cons x xs)
  obtain s' ok where s': "step s x = (s', ok)" by fastforce
  have "seen s \<subseteq> seen s'" using s' by (rule never_forgets)
  moreover have "y = x \<and> ok \<or> y \<in> set (snd (accepted_run step s' xs))"
    using Cons.prems s' by (auto simp: Let_def split: prod.splits if_splits)
  ultimately show ?case using Cons.IH [of s'] accept_fresh s' by auto
qed simp

text \<open>No key is accepted twice.\<close>

lemma run_accepts_once: "distinct (map key (snd (accepted_run step s xs)))"
proof (induction xs arbitrary: s)
  case (Cons x xs)
  obtain s' ok where s': "step s x = (s', ok)" by fastforce
  have "key x \<notin> key ` set (snd (accepted_run step s' xs))" if ok
    using accept_remembers s' that run_accepts_fresh by fastforce
  with Cons [of s'] s' show ?case by (auto simp: Let_def split: prod.splits)
qed simp

lemma refuses_seen: "key x \<in> seen s \<Longrightarrow> \<not> snd (step s x)"
  using accept_fresh by (metis (full_types) prod.collapse)

end

end
