(* ===== verification/Ledger_App.thy ===== *)
theory Ledger_App
  imports Ledger_Crypto Dedup
begin

text \<open>
  The replicated state machine of \<open>src/internal/ledger/app.go\<close>: \<open>NewOrmuzLedgerApp\<close>, \<open>CheckTx\<close>,
  \<open>FinalizeBlock\<close>, \<open>Query\<close> and \<open>Commit\<close>. LevelDB and the JSON codec are parameters: the record \<open>leveldb\<close>
  of the four database calls with the laws \<open>leveldb_ok\<close>, and a function that decodes a
  transaction. A panic of the Go code (an event name shorter than the eight bytes a log line
  shows) is an outcome that carries the database as it was left.
\<close>

section \<open>LevelDB\<close>

text \<open>
  \<open>db_Get\<close> gives \<open>None\<close> where the Go call gives an error (the key is not there). \<open>db_Iter\<close> lists the
  entries an iterator over the whole database visits.
\<close>

record 'db leveldb =
  db_Get :: "'db \<Rightarrow> bytes \<Rightarrow> bytes option"
  db_Has :: "'db \<Rightarrow> bytes \<Rightarrow> bool"
  db_Put :: "'db \<Rightarrow> bytes \<Rightarrow> bytes \<Rightarrow> 'db"
  db_Iter :: "'db \<Rightarrow> (bytes \<times> bytes) list"

definition leveldb_ok :: "'db leveldb \<Rightarrow> bool" where
  "leveldb_ok L \<longleftrightarrow>
     (\<forall>db k. db_Has L db k \<longleftrightarrow> db_Get L db k \<noteq> None) \<and>
     (\<forall>db k v. db_Get L (db_Put L db k v) = (db_Get L db)(k \<mapsto> v)) \<and>
     (\<forall>db. distinct (map fst (db_Iter L db)) \<and> map_of (db_Iter L db) = db_Get L db)"

lemma leveldb_okD:
  assumes "leveldb_ok L"
  shows "db_Has L db k \<longleftrightarrow> db_Get L db k \<noteq> None"
    "db_Get L (db_Put L db k v) = (db_Get L db)(k \<mapsto> v)"
    "distinct (map fst (db_Iter L db))" "map_of (db_Iter L db) = db_Get L db"
  using assms by (simp_all add: leveldb_ok_def)

section \<open>Keys and messages\<close>

definition balance_key :: "string \<Rightarrow> bytes" where
  "balance_key nation = ''balance:'' @ nation"

definition processed_key :: "string \<Rightarrow> string \<Rightarrow> bytes" where
  "processed_key txType eventID = ''processed:'' @ txType @ ''_'' @ eventID"

definition report_key :: "string \<Rightarrow> string \<Rightarrow> bytes" where
  "report_key txType eventID = ''report:'' @ txType @ ''_'' @ eventID"

text \<open>The accented letters of the log texts, in UTF-8.\<close>

abbreviation c_cedilla :: bytes where "c_cedilla \<equiv> [CHR 0xC3, CHR 0xA7]"
abbreviation a_tilde :: bytes where "a_tilde \<equiv> [CHR 0xC3, CHR 0xA3]"
abbreviation a_acute :: bytes where "a_acute \<equiv> [CHR 0xC3, CHR 0xA1]"

record TxResult =
  Code :: nat
  Log :: string

abbreviation result :: "nat \<Rightarrow> string \<Rightarrow> TxResult" where
  "result c l \<equiv> \<lparr>Code = c, Log = l\<rparr>"

section \<open>Start-up\<close>

definition AuthorizedKeys :: "'sk ed25519 \<Rightarrow> (string \<rightharpoonup> string)" where
  "AuthorizedKeys E =
     fold (\<lambda>n keys. let seed = seed_of n; priv = NewKeyFromSeed E seed; pub = PublicKey E priv
                   in keys(n \<mapsto> hex_EncodeToString pub))
       [''BR'', ''FR'', ''UK'', ''US''] Map.empty"

text \<open>\<open>None\<close> is the fatal exit when the database cannot be opened.\<close>

definition NewOrmuzLedgerApp :: "'db leveldb \<Rightarrow> 'db option \<Rightarrow> 'db option" where
  "NewOrmuzLedgerApp L opened =
     (case opened of
        None \<Rightarrow> None
      | Some db \<Rightarrow>
          Some (fold (\<lambda>n db. let key = balance_key n in if db_Has L db key then db else db_Put L db key ''1000'')
                  [''BR'', ''UK'', ''FR'', ''US''] db))"

section \<open>CheckTx\<close>

definition CheckTx :: "'db leveldb \<Rightarrow> (bytes \<Rightarrow> Transaction option) \<Rightarrow> 'db \<Rightarrow> bytes \<Rightarrow> TxResult" where
  "CheckTx L unmarshal db req =
     (case unmarshal req of
        None \<Rightarrow> result 1 ''JSON malformado''
      | Some tx \<Rightarrow>
          if tx_Type tx = ''SPEND_CREDIT'' then
            (case db_Get L db (balance_key (tx_NationID tx)) of
               None \<Rightarrow> result 2 (''Na'' @ c_cedilla @ a_tilde @ ''o n'' @ a_tilde @ ''o reconhecida'')
             | Some balanceBytes \<Rightarrow>
                 let balance = atoi_val balanceBytes
                 in if balance \<le> 0 then result 3 ''Saldo insuficiente'' else result 0 [])
          else result 0 [])"

section \<open>FinalizeBlock\<close>

text \<open>The cryptographic barrier, for one decoded transaction.\<close>

datatype barrier = Unauthorised | CorruptSignature | Forged | Authentic

definition check_signature :: "'sk ed25519 \<Rightarrow> Transaction \<Rightarrow> go_panic + barrier" where
  "check_signature E tx =
     (case AuthorizedKeys E (tx_NationID tx) of
        None \<Rightarrow> Inr Unauthorised
      | Some pubKeyHex \<Rightarrow>
          (case (hex_DecodeString pubKeyHex, hex_DecodeString (tx_Signature tx)) of
             (Some pubKeyBytes, Some sigBytes) \<Rightarrow>
               if length sigBytes \<noteq> 64 then Inr CorruptSignature
               else if length pubKeyBytes \<noteq> 32 then Inl InvalidArgument
               else if \<not> Verify E pubKeyBytes (tx_Type tx @ tx_NationID tx @ tx_EventID tx) sigBytes
                    then Inr Forged
               else Inr Authentic
           | _ \<Rightarrow> Inr CorruptSignature))"

text \<open>The switch on the transaction's type. Its log line comes after the balance is written.\<close>

definition state_machine :: "'db leveldb \<Rightarrow> 'db \<Rightarrow> Transaction \<Rightarrow> ('db, unit) outcome" where
  "state_machine L db tx =
     (if tx_Type tx = ''SPEND_CREDIT'' then
        let balanceKey = balance_key (tx_NationID tx);
            balanceBytes = (case db_Get L db balanceKey of None \<Rightarrow> [] | Some b \<Rightarrow> b);
            balance = atoi_val balanceBytes;
            newBalance = wrap64 (balance - 1);
            db' = db_Put L db balanceKey (Itoa newBalance)
        in log_prefix8 db' (tx_EventID tx)
      else if tx_Type tx = ''SAVE_REPORT'' then log_prefix8 db (tx_EventID tx)
      else Returned db ())"

text \<open>The body of the loop for one transaction.\<close>

definition deliver_tx ::
    "'sk ed25519 \<Rightarrow> 'db leveldb \<Rightarrow> (bytes \<Rightarrow> Transaction option) \<Rightarrow> 'db \<Rightarrow> bytes \<Rightarrow> ('db, TxResult) outcome" where
  "deliver_tx E L unmarshal db txBytes =
     (case unmarshal txBytes of
        None \<Rightarrow> Returned db (result 1 ''Falha no parse'')
      | Some tx \<Rightarrow>
          (case check_signature E tx of
             Inl p \<Rightarrow> Panicked db p
           | Inr Unauthorised \<Rightarrow> Returned db (result 2 (''Na'' @ c_cedilla @ a_tilde @ ''o n'' @ a_tilde @ ''o autorizada''))
           | Inr CorruptSignature \<Rightarrow> Returned db (result 3 ''Assinatura corrompida'')
           | Inr Forged \<Rightarrow>
               bind_outcome (log_prefix8 db (tx_EventID tx)) (\<lambda>db _.
                 Returned db (result 4 (''Falsifica'' @ c_cedilla @ a_tilde @ ''o criptogr'' @ a_acute @ ''fica'')))
           | Inr Authentic \<Rightarrow>
               let processedKey = processed_key (tx_Type tx) (tx_EventID tx)
               in if db_Has L db processedKey then
                    bind_outcome (log_prefix8 db (tx_EventID tx)) (\<lambda>db _.
                      Returned db (result 5 (''Transa'' @ c_cedilla @ a_tilde @ ''o j'' @ a_acute @ '' processada'')))
                  else
                    bind_outcome (state_machine L db tx) (\<lambda>db _.
                      let db = db_Put L db processedKey ''true'';
                          explorerKey = report_key (tx_Type tx) (tx_EventID tx);
                          db = db_Put L db explorerKey txBytes
                      in Returned db (result 0 []))))"

fun FinalizeBlock ::
    "'sk ed25519 \<Rightarrow> 'db leveldb \<Rightarrow> (bytes \<Rightarrow> Transaction option) \<Rightarrow> 'db \<Rightarrow> bytes list \<Rightarrow> ('db, TxResult list) outcome" where
  "FinalizeBlock E L unmarshal db [] = Returned db []"
| "FinalizeBlock E L unmarshal db (txBytes # txs) =
     bind_outcome (deliver_tx E L unmarshal db txBytes) (\<lambda>db r.
       bind_outcome (FinalizeBlock E L unmarshal db txs) (\<lambda>db rs. Returned db (r # rs)))"

text \<open>\<open>Commit\<close> answers and changes nothing.\<close>

definition Commit :: "'db \<Rightarrow> 'db \<times> unit" where
  "Commit db = (db, ())"

section \<open>Query\<close>

record QueryResponse =
  q_Code :: nat
  q_Value :: bytes
  q_Log :: string

text \<open>The scan of the \<open>state\<close> route: the balances and the reports it collects, later entries winning.\<close>

fun collect_state :: "(bytes \<times> bytes) list \<Rightarrow> (string \<rightharpoonup> int) \<times> (string \<rightharpoonup> string) \<Rightarrow> (string \<rightharpoonup> int) \<times> (string \<rightharpoonup> string)" where
  "collect_state [] (balances, reports) = (balances, reports)"
| "collect_state ((key, val) # rest) (balances, reports) =
     (if HasPrefix key ''balance:'' then
        let nation = Split key CHR '':'' ! 1 in collect_state rest (balances(nation \<mapsto> atoi_val val), reports)
      else if HasPrefix key ''report:'' then
        let eventID = Split key CHR '':'' ! 1 in collect_state rest (balances, reports(eventID \<mapsto> val))
      else collect_state rest (balances, reports))"

definition Query ::
    "'db leveldb \<Rightarrow> ((string \<rightharpoonup> int) \<Rightarrow> (string \<rightharpoonup> string) \<Rightarrow> bytes) \<Rightarrow> 'db \<Rightarrow> string \<Rightarrow> QueryResponse" where
  "Query L marshal_state db path =
     (if path = ''state'' then
        let (balances, reports) = collect_state (db_Iter L db) (Map.empty, Map.empty)
        in \<lparr>q_Code = 0, q_Value = marshal_state balances reports, q_Log = []\<rparr>
      else
        let parts = Split path CHR ''/''
        in if length parts = 2 \<and> parts ! 0 = ''balance'' then
             (case db_Get L db (balance_key (parts ! 1)) of
                None \<Rightarrow> \<lparr>q_Code = 1, q_Value = [], q_Log = ''N'' @ a_tilde @ ''o encontrado''\<rparr>
              | Some balanceBytes \<Rightarrow> \<lparr>q_Code = 0, q_Value = balanceBytes, q_Log = []\<rparr>)
           else \<lparr>q_Code = 1, q_Value = [], q_Log = ''Rota n'' @ a_tilde @ ''o suportada''\<rparr>)"

end
