(* ===== verification/Ledger_Spec.thy ===== *)
theory Ledger_Spec
  imports Ledger_App "HOL-Library.AList"
begin

text \<open>
  What the ledger promises. An abstract ledger is a table of balances, a set of operations
  already applied and a table of reports; \<open>ledger_abs\<close> reads it off the database. The detailed
  \<open>FinalizeBlock\<close> refines the abstract machine \<open>spec_deliver\<close>; accounting, at-most-once application,
  authenticity and immutability of reports follow in \<open>Ledger_Props\<close>.
\<close>

section \<open>The abstract ledger\<close>

record ledger_state =
  bal :: "string \<Rightarrow> int option"
  applied :: "string set"
  reps :: "string \<Rightarrow> bytes option"

definition op_key :: "Transaction \<Rightarrow> string" where
  "op_key tx = tx_Type tx @ ''_'' @ tx_EventID tx"

definition ledger_abs :: "'db leveldb \<Rightarrow> 'db \<Rightarrow> ledger_state" where
  "ledger_abs L db =
     \<lparr>bal = (\<lambda>n. map_option atoi_val (db_Get L db (balance_key n))),
      applied = {k. db_Get L db (''processed:'' @ k) \<noteq> None},
      reps = (\<lambda>k. db_Get L db (''report:'' @ k))\<rparr>"

definition is_spend :: "Transaction \<Rightarrow> bool" where
  "is_spend tx \<longleftrightarrow> tx_Type tx = ''SPEND_CREDIT''"

definition authentic :: "'sk ed25519 \<Rightarrow> Transaction \<Rightarrow> bool" where
  "authentic E tx \<longleftrightarrow> check_signature E tx = Inr Authentic"

text \<open>Applying one transaction: a credit is debited by a spend, and the operation is recorded.\<close>

definition spec_apply :: "Transaction \<Rightarrow> bytes \<Rightarrow> ledger_state \<Rightarrow> ledger_state" where
  "spec_apply tx txBytes st =
     st\<lparr>bal := (if is_spend tx
                then (bal st)(tx_NationID tx \<mapsto>
                   wrap64 ((case bal st (tx_NationID tx) of None \<Rightarrow> 0 | Some b \<Rightarrow> b) - 1))
                else bal st),
        applied := insert (op_key tx) (applied st),
        reps := (reps st)(op_key tx \<mapsto> txBytes)\<rparr>"

text \<open>
  The abstract machine: it refuses with the code of the first check that fails, and applies
  otherwise. A key of the wrong size verifies nothing.
\<close>

definition spec_deliver ::
    "'sk ed25519 \<Rightarrow> (bytes \<Rightarrow> Transaction option) \<Rightarrow> ledger_state \<Rightarrow> bytes \<Rightarrow> ledger_state \<times> nat" where
  "spec_deliver E unmarshal st txBytes =
     (case unmarshal txBytes of
        None \<Rightarrow> (st, 1)
      | Some tx \<Rightarrow>
          (case check_signature E tx of
             Inr Unauthorised \<Rightarrow> (st, 2)
           | Inr CorruptSignature \<Rightarrow> (st, 3)
           | Inr Authentic \<Rightarrow> if op_key tx \<in> applied st then (st, 5) else (spec_apply tx txBytes st, 0)
           | _ \<Rightarrow> (st, 4)))"

fun spec_block ::
    "'sk ed25519 \<Rightarrow> (bytes \<Rightarrow> Transaction option) \<Rightarrow> ledger_state \<Rightarrow> bytes list \<Rightarrow> ledger_state \<times> nat list" where
  "spec_block E unmarshal st [] = (st, [])"
| "spec_block E unmarshal st (b # bs) =
     (let (st', c) = spec_deliver E unmarshal st b; (st'', cs) = spec_block E unmarshal st' bs
      in (st'', c # cs))"

section \<open>The database through the abstraction\<close>

lemmas key_defs = balance_key_def processed_key_def report_key_def

lemma abs_put_balance:
  "leveldb_ok L \<Longrightarrow> ledger_abs L (db_Put L db (balance_key n) v) =
     (ledger_abs L db)\<lparr>bal := (bal (ledger_abs L db))(n \<mapsto> atoi_val v)\<rparr>"
  by (auto simp: ledger_abs_def leveldb_okD key_defs fun_eq_iff)

lemma abs_put_processed:
  "leveldb_ok L \<Longrightarrow> ledger_abs L (db_Put L db (processed_key t e) v) =
     (ledger_abs L db)\<lparr>applied := insert (t @ ''_'' @ e) (applied (ledger_abs L db))\<rparr>"
  by (auto simp: ledger_abs_def leveldb_okD key_defs fun_eq_iff)

lemma abs_put_report:
  "leveldb_ok L \<Longrightarrow> ledger_abs L (db_Put L db (report_key t e) v) =
     (ledger_abs L db)\<lparr>reps := (reps (ledger_abs L db))(t @ ''_'' @ e \<mapsto> v)\<rparr>"
  by (auto simp: ledger_abs_def leveldb_okD key_defs fun_eq_iff)

lemma has_processed:
  "leveldb_ok L \<Longrightarrow> db_Has L db (processed_key t e) \<longleftrightarrow> t @ ''_'' @ e \<in> applied (ledger_abs L db)"
  by (simp add: ledger_abs_def leveldb_okD key_defs)

lemmas abs_puts [ledger_simps] = abs_put_balance abs_put_processed abs_put_report has_processed

lemma balance_value:
  "atoi_val (case db_Get L db (balance_key n) of None \<Rightarrow> [] | Some b \<Rightarrow> b) =
     (case bal (ledger_abs L db) n of None \<Rightarrow> 0 | Some b \<Rightarrow> b)"
  by (simp add: ledger_abs_def split: option.splits)

lemma state_machine_Returned:
  assumes "leveldb_ok L" "state_machine L db tx = Returned db' u"
  shows "ledger_abs L db' = (ledger_abs L db)\<lparr>bal := bal (spec_apply tx b (ledger_abs L db))\<rparr>"
proof (cases "is_spend tx")
  case True
  then have "loggable (tx_EventID tx)"
    using assms(2) by (cases "loggable (tx_EventID tx)") (auto simp: state_machine_def is_spend_def Let_def)
  with True assms show ?thesis
    by (auto simp: state_machine_def is_spend_def Let_def spec_apply_def balance_value ledger_simps)
next
  case False
  then have "db' = db"
    using assms(2) by (cases "loggable (tx_EventID tx)") (auto simp: state_machine_def is_spend_def split: if_splits)
  with False show ?thesis by (simp add: spec_apply_def)
qed

section \<open>The steps of FinalizeBlock\<close>

text \<open>One delivered transaction: refused without a trace, or applied.\<close>

lemma deliver_cases:
  assumes "leveldb_ok L" "deliver_tx E L U db b = Returned db' r"
  obtains (refused) "db' = db" "Code r \<noteq> 0" "spec_deliver E U (ledger_abs L db) b = (ledger_abs L db, Code r)"
  | (applied) tx where "U b = Some tx" "authentic E tx" "op_key tx \<notin> applied (ledger_abs L db)" "Code r = 0"
      "ledger_abs L db' = spec_apply tx b (ledger_abs L db)"
proof (cases "U b")
  case None
  with assms(2) refused show ?thesis by (auto simp: deliver_tx_def spec_deliver_def)
next
  case (Some tx)
  have has: "db_Has L db (processed_key (tx_Type tx) (tx_EventID tx)) \<longleftrightarrow> op_key tx \<in> applied (ledger_abs L db)"
    using assms(1) by (simp add: has_processed op_key_def)
  show ?thesis
  proof (cases "check_signature E tx = Inr Authentic \<and> op_key tx \<notin> applied (ledger_abs L db)")
    case False
    have "db' = db \<and> Code r \<noteq> 0 \<and> spec_deliver E U (ledger_abs L db) b = (ledger_abs L db, Code r)"
      using Some False assms(2) has
      by (cases "loggable (tx_EventID tx)")
        (auto simp: deliver_tx_def spec_deliver_def Let_def split: sum.splits barrier.splits if_splits)
    with refused show ?thesis by blast
  next
    case True
    then obtain db1 u where db1: "state_machine L db tx = Returned db1 u"
      and r: "Code r = 0" "db' = db_Put L (db_Put L db1 (processed_key (tx_Type tx) (tx_EventID tx)) ''true'')
        (report_key (tx_Type tx) (tx_EventID tx)) b"
      using Some assms(2) has by (auto simp: deliver_tx_def Let_def bind_outcome_Returned)
    have "ledger_abs L db' = spec_apply tx b (ledger_abs L db)"
      using state_machine_Returned [OF assms(1) db1, where b = b] r assms(1)
      by (simp add: ledger_simps spec_apply_def op_key_def)
    with applied Some True r show ?thesis by (simp add: authentic_def)
  qed
qed

lemma deliver_refines:
  assumes "leveldb_ok L" "deliver_tx E L U db b = Returned db' r"
  shows "spec_deliver E U (ledger_abs L db) b = (ledger_abs L db', Code r)"
  using assms by (cases rule: deliver_cases) (simp_all add: spec_deliver_def authentic_def)

lemma FinalizeBlock_Cons:
  "FinalizeBlock E L U db (b # bs) = Returned db' rs \<longleftrightarrow>
     (\<exists>db1 r rs'. deliver_tx E L U db b = Returned db1 r \<and> FinalizeBlock E L U db1 bs = Returned db' rs' \<and> rs = r # rs')"
  by (auto simp: bind_outcome_Returned)

lemma FinalizeBlock_append:
  "FinalizeBlock E L U db (bs @ cs) =
     bind_outcome (FinalizeBlock E L U db bs) (\<lambda>db rs.
       bind_outcome (FinalizeBlock E L U db cs) (\<lambda>db ss. Returned db (rs @ ss)))"
proof (induction bs arbitrary: db)
  case Nil
  show ?case by (cases "FinalizeBlock E L U db cs") auto
next
  case (Cons b bs)
  show ?case
  proof (cases "deliver_tx E L U db b")
    case (Returned db1 r)
    show ?thesis
    proof (cases "FinalizeBlock E L U db1 bs")
      case (Returned db2 rs)
      with \<open>deliver_tx E L U db b = Returned db1 r\<close> Cons show ?thesis
        by (cases "FinalizeBlock E L U db2 cs") auto
    next
      case (Panicked db2 p)
      with \<open>deliver_tx E L U db b = Returned db1 r\<close> Cons show ?thesis by auto
    qed
  next
    case (Panicked db1 p)
    then show ?thesis by simp
  qed
qed

text \<open>An induction over the transactions of a block that has been executed to its end.\<close>

lemma FinalizeBlock_induct [consumes 2, case_names finished refused applied]:
  assumes L: "leveldb_ok L" and run: "FinalizeBlock E L U db bs = Returned db' rs"
    and Nil: "\<And>db. P db [] db []"
    and refused: "\<And>db b bs db' r rs. deliver_tx E L U db b = Returned db r \<Longrightarrow> Code r \<noteq> 0 \<Longrightarrow>
      FinalizeBlock E L U db bs = Returned db' rs \<Longrightarrow> P db bs db' rs \<Longrightarrow> P db (b # bs) db' (r # rs)"
    and applied: "\<And>db b bs db1 db' tx r rs. U b = Some tx \<Longrightarrow> authentic E tx \<Longrightarrow>
      op_key tx \<notin> applied (ledger_abs L db) \<Longrightarrow> Code r = 0 \<Longrightarrow>
      ledger_abs L db1 = spec_apply tx b (ledger_abs L db) \<Longrightarrow> deliver_tx E L U db b = Returned db1 r \<Longrightarrow>
      FinalizeBlock E L U db1 bs = Returned db' rs \<Longrightarrow> P db1 bs db' rs \<Longrightarrow> P db (b # bs) db' (r # rs)"
  shows "P db bs db' rs"
  using run
proof (induction bs arbitrary: db rs)
  case Nil
  then show ?case using assms(3) by simp
next
  case (Cons b bs)
  then obtain db1 r rs' where d: "deliver_tx E L U db b = Returned db1 r"
    and f: "FinalizeBlock E L U db1 bs = Returned db' rs'" and rs: "rs = r # rs'"
    by (auto simp: FinalizeBlock_Cons simp del: FinalizeBlock.simps)
  note IH = Cons.IH [OF f]
  from L d show ?case
  proof (cases rule: deliver_cases)
    case refused
    then show ?thesis using assms(4) d f IH rs by simp
  next
    case (applied tx)
    then show ?thesis using assms(5) d f IH rs by simp
  qed
qed

end
