(* ===== verification/Ledger_Props.thy ===== *)
theory Ledger_Props
  imports Ledger_Spec
begin

text \<open>
  The properties of the ledger, proved from the refinement of \<open>Ledger_Spec\<close>, each with a closed
  instance: an association list for the database, the example signature scheme, and a table for
  the decoder.
\<close>

section \<open>A concrete database and chain\<close>

definition example_leveldb :: "(bytes \<times> bytes) list leveldb" where
  "example_leveldb =
     \<lparr>db_Get = map_of, db_Has = (\<lambda>db k. map_of db k \<noteq> None), db_Put = (\<lambda>db k v. (k, v) # db),
      db_Iter = AList.clearjunk\<rparr>"

lemma example_leveldb_ok: "leveldb_ok example_leveldb"
  by (simp add: leveldb_ok_def example_leveldb_def distinct_clearjunk map_of_clearjunk)

definition example_tx :: "string \<Rightarrow> string \<Rightarrow> string \<Rightarrow> Transaction" where
  "example_tx t n e =
     \<lparr>tx_Type = t, tx_NationID = n, tx_EventID = e, tx_Signature = SignTransaction example_ed25519 n t e,
      tx_Payload = []\<rparr>"

definition example_unmarshal :: "bytes \<Rightarrow> Transaction option" where
  "example_unmarshal =
     map_of [(''tx1'', example_tx ''SPEND_CREDIT'' ''BR'' ''event-0001''),
             (''tx2'', example_tx ''SPEND_CREDIT'' ''BR'' ''event-0002''),
             (''tx3'', example_tx ''SAVE_REPORT'' ''BR'' ''event-0001''),
             (''short'', example_tx ''SPEND_CREDIT'' ''BR'' ''e1''),
             (''forged'', (example_tx ''SAVE_REPORT'' ''BR'' ''e1'')\<lparr>tx_Signature := replicate 128 CHR ''0''\<rparr>)]"

definition example_db :: "string \<Rightarrow> (bytes \<times> bytes) list" where
  "example_db credits = [(balance_key ''BR'', credits)]"

abbreviation example_block :: "(bytes \<times> bytes) list \<Rightarrow> bytes list \<Rightarrow> ((bytes \<times> bytes) list, TxResult list) outcome" where
  "example_block \<equiv> FinalizeBlock example_ed25519 example_leveldb example_unmarshal"

section \<open>Signed transactions\<close>

lemma AuthorizedKeys_nation:
  "AuthorizedKeys E n =
     (if n \<in> {''BR'', ''FR'', ''UK'', ''US''} then Some (hex_EncodeToString (PublicKey E (NewKeyFromSeed E (seed_of n)))) else None)"
  by (auto simp: AuthorizedKeys_def Let_def)

lemma signed_authentic:
  assumes "ed25519_ok E" "tx_NationID tx \<in> {''BR'', ''FR'', ''UK'', ''US''}"
    and "tx_Signature tx = SignTransaction E (tx_NationID tx) (tx_Type tx) (tx_EventID tx)"
  shows "check_signature E tx = Inr Authentic"
proof -
  let ?sk = "NewKeyFromSeed E (seed_of (tx_NationID tx))"
  let ?m = "tx_Type tx @ tx_NationID tx @ tx_EventID tx"
  have "Verify E (PublicKey E ?sk) ?m (Sign E ?sk ?m)" "length (Sign E ?sk ?m) = 64" "length (PublicKey E ?sk) = 32"
    using assms(1) by (simp_all add: ed25519_ok_def)
  moreover have "AuthorizedKeys E (tx_NationID tx) = Some (hex_EncodeToString (PublicKey E ?sk))"
    using assms(2) by (simp add: AuthorizedKeys_nation)
  ultimately show ?thesis using assms(3) by (simp add: check_signature_def SignTransaction_def Let_def)
qed

lemma example_tx_authentic:
  "n \<in> {''BR'', ''FR'', ''UK'', ''US''} \<Longrightarrow> check_signature example_ed25519 (example_tx t n e) = Inr Authentic"
  by (rule signed_authentic) (simp_all add: example_ed25519_ok example_tx_def)

lemma check_signature_total: "ed25519_ok E \<Longrightarrow> \<exists>b. check_signature E tx = Inr b"
  by (auto simp: check_signature_def AuthorizedKeys_nation ed25519_ok_def split: option.splits)

lemma example_numbers:
  "atoi_val ''1000'' = 1000" "atoi_val ''1'' = 1" "atoi_val ''0'' = 0"
  "Itoa 999 = ''999''" "Itoa 0 = ''0''" "Itoa (- 1) = ''-1''" "atoi_val ''999'' = 999" "atoi_val ''-1'' = - 1"
  "wrap64 999 = 999" "wrap64 0 = 0" "wrap64 (- 1) = - 1"
  by (simp_all add: atoi_val_def Atoi_def char_digit_def clamp_int_def Itoa_def digit_char_def wrap64_def
    decimal.simps char_of_def bit_Suc_0_iff)

lemmas example_eval = example_unmarshal_def example_leveldb_def example_db_def deliver_tx_def state_machine_def
  example_tx_authentic key_defs Let_def loggable_def example_numbers

lemma example_tx_sel [simp]:
  "tx_Type (example_tx t n e) = t" "tx_NationID (example_tx t n e) = n" "tx_EventID (example_tx t n e) = e"
  by (simp_all add: example_tx_def)

lemma example_block_runs:
  obtains db rs where "example_block (example_db ''1000'') [''tx1'', ''tx3'', ''tx1''] = Returned db rs"
    "map Code rs = [0, 0, 5]" "map_of db (balance_key ''BR'') = Some ''999''"
    "map_of db (report_key ''SAVE_REPORT'' ''event-0001'') = Some ''tx3''"
proof -
  let ?o = "example_block (example_db ''1000'') [''tx1'', ''tx3'', ''tx1'']"
  have "returned ?o \<and> map Code (out_value ?o) = [0, 0, 5] \<and> map_of (out_state ?o) (balance_key ''BR'') = Some ''999''
    \<and> map_of (out_state ?o) (report_key ''SAVE_REPORT'' ''event-0001'') = Some ''tx3''"
    by (simp add: example_eval)
  then show thesis using that by (cases ?o) auto
qed

section \<open>Panics\<close>

lemma deliver_returns:
  assumes "ed25519_ok E" "\<And>tx. U b = Some tx \<Longrightarrow> loggable (tx_EventID tx)"
  shows "\<exists>db' r. deliver_tx E L U db b = Returned db' r"
proof (cases "U b")
  case None
  then show ?thesis by (simp add: deliver_tx_def)
next
  case (Some tx)
  obtain c where "check_signature E tx = Inr c" using check_signature_total [OF assms(1)] by blast
  with Some assms(2) [OF Some] show ?thesis
    by (cases c) (auto simp: deliver_tx_def state_machine_def Let_def)
qed

text \<open>A panic leaves the database as it was, except that a spend has already written the balance.\<close>

lemma deliver_panicked:
  assumes "leveldb_ok L" "deliver_tx E L U db b = Panicked db' p"
  obtains (before) "db' = db"
  | (debited) tx where "U b = Some tx" "authentic E tx" "is_spend tx" "\<not> loggable (tx_EventID tx)"
      "op_key tx \<notin> applied (ledger_abs L db)"
      "ledger_abs L db' = (ledger_abs L db)\<lparr>bal := bal (spec_apply tx b (ledger_abs L db))\<rparr>"
proof (cases "U b")
  case None
  with assms(2) show ?thesis by (simp add: deliver_tx_def)
next
  case (Some tx)
  have has: "db_Has L db (processed_key (tx_Type tx) (tx_EventID tx)) \<longleftrightarrow> op_key tx \<in> applied (ledger_abs L db)"
    using assms(1) by (simp add: has_processed op_key_def)
  show ?thesis
  proof (cases "authentic E tx \<and> is_spend tx \<and> \<not> loggable (tx_EventID tx) \<and> op_key tx \<notin> applied (ledger_abs L db)")
    case True
    then have "db' = db_Put L db (balance_key (tx_NationID tx)) (Itoa (wrap64
        (atoi_val (case db_Get L db (balance_key (tx_NationID tx)) of None \<Rightarrow> [] | Some b \<Rightarrow> b) - 1)))"
      using assms(2) Some has
      by (simp add: deliver_tx_def authentic_def is_spend_def state_machine_def Let_def)
    then show ?thesis
      using True Some debited assms(1) by (simp add: spec_apply_def ledger_simps balance_value)
  next
    case False
    then have "db' = db"
      using assms(2) Some has
      by (cases "loggable (tx_EventID tx)")
        (auto simp: deliver_tx_def authentic_def is_spend_def state_machine_def Let_def
          split: sum.splits barrier.splits if_splits)
    then show ?thesis using before by blast
  qed
qed

section \<open>Refinement and totality\<close>

text \<open>C1. \<open>FinalizeBlock\<close> implements the abstract ledger: the balances, the applied operations and the
  reports read off the database after a block are those of the abstract machine run on the
  same transactions, and the result codes agree, one per transaction.\<close>

theorem FinalizeBlock_refines:
  assumes "leveldb_ok L" "FinalizeBlock E L unmarshal db txs = Returned db' rs"
  shows "spec_block E unmarshal (ledger_abs L db) txs = (ledger_abs L db', map Code rs)"
  using assms
proof (induction rule: FinalizeBlock_induct)
  case (refused db b bs db' r rs)
  then show ?case using deliver_refines [OF assms(1) refused(1)] by simp
next
  case (applied db b bs db1 db' tx r rs)
  then show ?case using deliver_refines [OF assms(1) applied(6)] by simp
qed simp

theorem FinalizeBlock_refines_witness:
  "\<exists>db' rs. example_block (example_db ''1000'') [''tx1'', ''tx3'', ''tx1''] = Returned db' rs \<and>
     spec_block example_ed25519 example_unmarshal (ledger_abs example_leveldb (example_db ''1000''))
       [''tx1'', ''tx3'', ''tx1''] = (ledger_abs example_leveldb db', [0, 0, 5])"
proof -
  obtain db rs where r: "example_block (example_db ''1000'') [''tx1'', ''tx3'', ''tx1''] = Returned db rs"
    "map Code rs = [0, 0, 5]" by (rule example_block_runs)
  from FinalizeBlock_refines [OF example_leveldb_ok r(1)] r show ?thesis by metis
qed

text \<open>C19. A block is executed to its end, with one result per transaction, when every transaction in it
  that decodes names its event with at least eight bytes. (Shorter names are the subject of the
  last section.)\<close>

theorem FinalizeBlock_returns:
  assumes "ed25519_ok E" "\<forall>b \<in> set txs. \<forall>tx. unmarshal b = Some tx \<longrightarrow> loggable (tx_EventID tx)"
  shows "\<exists>db' rs. FinalizeBlock E L unmarshal db txs = Returned db' rs \<and> length rs = length txs"
  using assms(2)
proof (induction txs arbitrary: db)
  case (Cons b bs)
  have "\<exists>db1 r. deliver_tx E L unmarshal db b = Returned db1 r"
    using Cons.prems by (intro deliver_returns [OF assms(1)]) simp
  then obtain db1 r where d: "deliver_tx E L unmarshal db b = Returned db1 r" by blast
  from Cons.IH [of db1] Cons.prems obtain db' rs
    where "FinalizeBlock E L unmarshal db1 bs = Returned db' rs" "length rs = length bs" by auto
  with d show ?case by simp
qed simp

theorem FinalizeBlock_returns_witness:
  "\<exists>db' rs. example_block (example_db ''1000'') [''tx1'', ''tx2''] = Returned db' rs \<and> length rs = length [''tx1'', ''tx2'']"
proof -
  have "\<forall>b \<in> set [''tx1'', ''tx2'']. \<forall>tx. example_unmarshal b = Some tx \<longrightarrow> loggable (tx_EventID tx)"
    by (simp add: example_unmarshal_def loggable_def)
  then show ?thesis by (rule FinalizeBlock_returns [OF example_ed25519_ok])
qed

section \<open>At most once\<close>

text \<open>
  The ledger as a machine that accepts or refuses, over any stretch of its history: a panic
  counts as a refusal that keeps what was written, so the history may span restarts.
\<close>

definition ledger_accept ::
    "'sk ed25519 \<Rightarrow> 'db leveldb \<Rightarrow> (bytes \<Rightarrow> Transaction option) \<Rightarrow> 'db \<Rightarrow> bytes \<Rightarrow> 'db \<times> bool" where
  "ledger_accept E L unmarshal db b =
     (case deliver_tx E L unmarshal db b of
        Returned db' r \<Rightarrow> (db', Code r = 0)
      | Panicked db' p \<Rightarrow> (db', False))"

lemma ledger_dedup:
  assumes "leveldb_ok L"
  shows "dedup (ledger_accept E L U) (\<lambda>b. map_option op_key (U b)) (\<lambda>db. Some ` applied (ledger_abs L db))"
proof -
  have *: "ok \<longrightarrow> (\<exists>tx. U b = Some tx \<and> op_key tx \<notin> applied (ledger_abs L db) \<and> op_key tx \<in> applied (ledger_abs L db'))"
    and **: "applied (ledger_abs L db) \<subseteq> applied (ledger_abs L db')"
    if s: "ledger_accept E L U db b = (db', ok)" for db b db' ok
  proof -
    show "ok \<longrightarrow> (\<exists>tx. U b = Some tx \<and> op_key tx \<notin> applied (ledger_abs L db) \<and> op_key tx \<in> applied (ledger_abs L db'))"
    proof (cases "deliver_tx E L U db b")
      case (Returned d r)
      from assms this show ?thesis using s Returned
        by (cases rule: deliver_cases) (auto simp: ledger_accept_def spec_apply_def)
    next
      case (Panicked d p)
      then show ?thesis using s by (simp add: ledger_accept_def)
    qed
    show "applied (ledger_abs L db) \<subseteq> applied (ledger_abs L db')"
    proof (cases "deliver_tx E L U db b")
      case (Returned d r)
      from assms this show ?thesis using s Returned
        by (cases rule: deliver_cases) (auto simp: ledger_accept_def spec_apply_def)
    next
      case (Panicked d p)
      from assms this show ?thesis using s Panicked
        by (cases rule: deliver_panicked) (auto simp: ledger_accept_def)
    qed
  qed
  show ?thesis using * ** by unfold_locales fastforce+
qed

lemma distinct_map_filter_le_1:
  assumes "distinct (map f xs)" "\<And>x y. P x \<Longrightarrow> P y \<Longrightarrow> f x = f y"
  shows "length (filter P xs) \<le> 1"
  using assms(1)
proof (induction xs)
  case (Cons x xs)
  then show ?case using assms(2) by (auto simp: filter_empty_conv image_iff)
qed simp

text \<open>C2. An event is charged at most once: in any history of transactions, over any number of blocks and
  restarts, the ledger accepts at most one transaction of a given type for a given event, whichever
  nation signs it and however often it is submitted.\<close>

theorem event_applied_once:
  assumes "leveldb_ok L"
  shows "length (filter (\<lambda>b. \<exists>tx. unmarshal b = Some tx \<and> tx_Type tx = txType \<and> tx_EventID tx = eventID)
    (snd (accepted_run (ledger_accept E L unmarshal) db history))) \<le> 1"
  by (rule distinct_map_filter_le_1 [OF dedup.run_accepts_once [OF ledger_dedup [OF assms]]])
    (auto simp: op_key_def)

theorem event_applied_once_witness:
  "length (filter (\<lambda>b. \<exists>tx. example_unmarshal b = Some tx \<and> tx_Type tx = ''SPEND_CREDIT'' \<and> tx_EventID tx = ''event-0001'')
    (snd (accepted_run (ledger_accept example_ed25519 example_leveldb example_unmarshal) (example_db ''1000'')
      [''tx1'', ''tx2'', ''tx1'']))) \<le> 1"
  using event_applied_once [OF example_leveldb_ok] by blast

section \<open>Accounting\<close>

definition accepted_txs :: "(bytes \<Rightarrow> Transaction option) \<Rightarrow> bytes list \<Rightarrow> TxResult list \<Rightarrow> Transaction list" where
  "accepted_txs unmarshal bs rs = List.map_filter (\<lambda>(b, r). if Code r = 0 then unmarshal b else None) (zip bs rs)"

definition spends :: "string \<Rightarrow> Transaction list \<Rightarrow> nat" where
  "spends n txs = length (filter (\<lambda>tx. is_spend tx \<and> tx_NationID tx = n) txs)"

lemma accepted_txs_Cons:
  "accepted_txs U (b # bs) (r # rs) =
     (case (if Code r = 0 then U b else None) of None \<Rightarrow> accepted_txs U bs rs | Some tx \<Rightarrow> tx # accepted_txs U bs rs)"
  by (simp add: accepted_txs_def List.map_filter_simps split: option.splits)

lemma spends_Cons:
  "spends n (tx # txs) = (if is_spend tx \<and> tx_NationID tx = n then Suc (spends n txs) else spends n txs)"
  by (simp add: spends_def)

lemma bal_int64: "bal (ledger_abs L db) n = Some c \<Longrightarrow> int64 c"
  by (auto simp: ledger_abs_def)

text \<open>Every accepted spend costs its nation exactly one credit and nothing else moves a balance: after a
  block, a nation's balance is its balance before minus the number of its accepted
  \<open>SPEND_CREDIT\<close> transactions (as long as that stays in 64 bits).\<close>

lemma credit_accounting:
  assumes "leveldb_ok L" "FinalizeBlock E L unmarshal db txs = Returned db' rs"
    and "bal (ledger_abs L db) n = Some c"
    and "- (2 ^ 63) \<le> c - int (spends n (accepted_txs unmarshal txs rs))"
  shows "bal (ledger_abs L db') n = Some (c - int (spends n (accepted_txs unmarshal txs rs)))"
  using assms
proof (induction arbitrary: c rule: FinalizeBlock_induct)
  case (finished db)
  then show ?case by (simp add: accepted_txs_def spends_def List.map_filter_simps)
next
  case (refused db b bs db' r rs)
  then show ?case by (simp add: accepted_txs_Cons)
next
  case (applied db b bs db1 db' tx r rs)
  have acc: "accepted_txs unmarshal (b # bs) (r # rs) = tx # accepted_txs unmarshal bs rs"
    using applied by (simp add: accepted_txs_Cons)
  show ?case
  proof (cases "is_spend tx \<and> tx_NationID tx = n")
    case True
    have "int64 (c - 1)" using bal_int64 applied.prems True acc by (fastforce simp: int64_def spends_Cons)
    then have "bal (ledger_abs L db1) n = Some (c - 1)" using applied True by (simp add: spec_apply_def)
    from applied.IH [OF this] show ?thesis using True acc applied.prems by (simp add: spends_Cons algebra_simps)
  next
    case False
    then have "bal (ledger_abs L db1) n = Some c" using applied by (auto simp: spec_apply_def)
    from applied.IH [OF this] show ?thesis using False acc applied.prems by (auto simp: spends_Cons)
  qed
qed

section \<open>Authenticity\<close>

text \<open>What the cryptographic barrier lets through.\<close>

lemma authentic_iff:
  "authentic E tx \<longleftrightarrow>
     (\<exists>pubHex pub sig. AuthorizedKeys E (tx_NationID tx) = Some pubHex \<and> hex_DecodeString pubHex = Some pub \<and>
        hex_DecodeString (tx_Signature tx) = Some sig \<and> length sig = 64 \<and> length pub = 32 \<and>
        Verify E pub (tx_Type tx @ tx_NationID tx @ tx_EventID tx) sig)"
  by (auto simp: authentic_def check_signature_def split: option.splits if_splits)

definition signed_spend :: "'sk ed25519 \<Rightarrow> string \<Rightarrow> Transaction \<Rightarrow> bool" where
  "signed_spend E n tx \<longleftrightarrow>
     tx_Type tx = ''SPEND_CREDIT'' \<and> tx_NationID tx = n \<and>
     (\<exists>pubHex pub sig. AuthorizedKeys E n = Some pubHex \<and> hex_DecodeString pubHex = Some pub \<and>
        hex_DecodeString (tx_Signature tx) = Some sig \<and> Verify E pub (''SPEND_CREDIT'' @ n @ tx_EventID tx) sig)"

lemma deliver_balance:
  assumes "leveldb_ok L"
    and "bal (ledger_abs L (out_state (deliver_tx E L U db b))) n \<noteq> bal (ledger_abs L db) n"
  shows "\<exists>tx. U b = Some tx \<and> signed_spend E n tx"
proof (cases "deliver_tx E L U db b")
  case (Returned db' r)
  from assms(1) this show ?thesis using assms(2) Returned
    by (cases rule: deliver_cases)
      (auto simp: spec_apply_def signed_spend_def is_spend_def authentic_iff split: if_splits)
next
  case (Panicked db' p)
  from assms(1) this show ?thesis using assms(2) Panicked
    by (cases rule: deliver_panicked)
      (auto simp: spec_apply_def signed_spend_def is_spend_def authentic_iff split: if_splits)
qed

lemma out_state_FinalizeBlock_Cons:
  "out_state (FinalizeBlock E L U db (b # bs)) =
     (case deliver_tx E L U db b of
        Returned db1 r \<Rightarrow> out_state (FinalizeBlock E L U db1 bs) | Panicked db1 p \<Rightarrow> db1)"
proof (cases "deliver_tx E L U db b")
  case (Returned db1 r)
  then show ?thesis by (cases "FinalizeBlock E L U db1 bs") auto
qed simp

text \<open>C6. Nobody spends for a nation without its key: if a nation's balance differs after a block, even one
  whose execution panicked half-way, then the block holds a \<open>SPEND_CREDIT\<close> transaction of that
  nation whose signature verifies under the key authorised for it.\<close>

theorem balance_change_needs_signature:
  assumes "leveldb_ok L"
    and "bal (ledger_abs L (out_state (FinalizeBlock E L unmarshal db txs))) n \<noteq> bal (ledger_abs L db) n"
  shows "\<exists>b \<in> set txs. \<exists>tx. unmarshal b = Some tx \<and> signed_spend E n tx"
  using assms(2)
proof (induction txs arbitrary: db)
  case (Cons b bs)
  show ?case
  proof (cases "bal (ledger_abs L (out_state (deliver_tx E L unmarshal db b))) n = bal (ledger_abs L db) n")
    case False
    then show ?thesis using deliver_balance [OF assms(1)] by fastforce
  next
    case True
    with Cons.prems obtain db1 r where "deliver_tx E L unmarshal db b = Returned db1 r"
      "bal (ledger_abs L (out_state (FinalizeBlock E L unmarshal db1 bs))) n \<noteq> bal (ledger_abs L db1) n"
      by (auto simp: out_state_FinalizeBlock_Cons simp del: FinalizeBlock.simps split: outcome.splits)
    with Cons.IH [of db1] show ?thesis by auto
  qed
qed simp

theorem balance_change_needs_signature_witness:
  "\<exists>b \<in> set [''tx1'', ''tx3'', ''tx1'']. \<exists>tx. example_unmarshal b = Some tx \<and> signed_spend example_ed25519 ''BR'' tx"
proof -
  obtain db rs where r: "example_block (example_db ''1000'') [''tx1'', ''tx3'', ''tx1''] = Returned db rs"
    "map_of db (balance_key ''BR'') = Some ''999''" by (rule example_block_runs)
  have "bal (ledger_abs example_leveldb db) ''BR'' \<noteq> bal (ledger_abs example_leveldb (example_db ''1000'')) ''BR''"
    using r(2) by (simp add: ledger_abs_def example_leveldb_def example_db_def example_numbers)
  then have "bal (ledger_abs example_leveldb (out_state (example_block (example_db ''1000'') [''tx1'', ''tx3'', ''tx1'']))) ''BR''
      \<noteq> bal (ledger_abs example_leveldb (example_db ''1000'')) ''BR''" using r(1) by (simp only: outcome.sel not_False_eq_True)
  from balance_change_needs_signature [OF example_leveldb_ok this] show ?thesis .
qed

section \<open>Reports\<close>

text \<open>Every report on file belongs to an operation that is locked as applied.\<close>

definition reports_locked :: "ledger_state \<Rightarrow> bool" where
  "reports_locked st \<longleftrightarrow> (\<forall>k. reps st k \<noteq> None \<longrightarrow> k \<in> applied st)"

text \<open>Reports are immutable: once every report on file is locked (as in an empty database), that stays
  so, and no later block changes or removes a report.\<close>

lemma reports_immutable:
  assumes "leveldb_ok L" "FinalizeBlock E L unmarshal db txs = Returned db' rs" "reports_locked (ledger_abs L db)"
  shows "reports_locked (ledger_abs L db') \<and>
    (\<forall>k v. reps (ledger_abs L db) k = Some v \<longrightarrow> reps (ledger_abs L db') k = Some v)"
  using assms
proof (induction rule: FinalizeBlock_induct)
  case (applied db b bs db1 db' tx r rs)
  have "reps (ledger_abs L db) (op_key tx) = None" using applied by (auto simp: reports_locked_def)
  then have "\<forall>k v. reps (ledger_abs L db) k = Some v \<longrightarrow> reps (ledger_abs L db1) k = Some v"
    using applied by (auto simp: spec_apply_def)
  moreover have "reports_locked (ledger_abs L db1)" using applied by (auto simp: reports_locked_def spec_apply_def)
  ultimately show ?case using applied.IH by blast
qed auto

end
