(* ===== verification/Ledger_Limits.thy ===== *)
theory Ledger_Limits
  imports Ledger_Props
begin

text \<open>
  The rest of the ledger's interface: what start-up writes, what the mempool check promises, what
  a query reads back. The last section is what the code does not prevent: overdrafts, panics on
  short event names, and operations of different types that share one lock.
\<close>

section \<open>Start-up\<close>

abbreviation consortium :: "string set" where
  "consortium \<equiv> {''BR'', ''UK'', ''FR'', ''US''}"

lemma put_if_missing:
  assumes "leveldb_ok L"
  shows "db_Get L (fold (\<lambda>n db. let key = balance_key n in if db_Has L db key then db else db_Put L db key v) ns db) k =
    (if db_Get L db k = None \<and> (\<exists>n \<in> set ns. k = balance_key n) then Some v else db_Get L db k)"
proof (induction ns arbitrary: db)
  case (Cons n ns)
  show ?case
  proof (cases "db_Has L db (balance_key n)")
    case True
    then show ?thesis using Cons [of db] assms by (auto simp: leveldb_okD)
  next
    case False
    then show ?thesis using Cons [of "db_Put L db (balance_key n) v"] assms by (auto simp: leveldb_okD)
  qed
qed simp

section \<open>The mempool check\<close>

text \<open>
  The mempool admits a \<open>SPEND_CREDIT\<close> exactly when its nation has an account with a positive
  balance; anything else that decodes is admitted.
\<close>

lemma CheckTx_code:
  assumes "unmarshal req = Some tx"
  shows "Code (CheckTx L unmarshal db req) = 0 \<longleftrightarrow>
    (is_spend tx \<longrightarrow> (\<exists>c > 0. bal (ledger_abs L db) (tx_NationID tx) = Some c))"
  using assms by (auto simp: CheckTx_def is_spend_def ledger_abs_def Let_def split: option.splits)

text \<open>A signed transaction as the broker builds it, and what the ledger does with a fresh one.\<close>

abbreviation signed_tx :: "'sk ed25519 \<Rightarrow> string \<Rightarrow> string \<Rightarrow> string \<Rightarrow> string \<Rightarrow> Transaction" where
  "signed_tx E txType nation eventID payload \<equiv>
     \<lparr>tx_Type = txType, tx_NationID = nation, tx_EventID = eventID,
      tx_Signature = SignTransaction E nation txType eventID, tx_Payload = payload\<rparr>"

lemma signed_tx_authentic:
  "ed25519_ok E \<Longrightarrow> n \<in> consortium \<Longrightarrow> check_signature E (signed_tx E t n e p) = Inr Authentic"
  by (rule signed_authentic) auto

lemma signed_tx_applied:
  assumes "leveldb_ok L" "ed25519_ok E" "nation \<in> consortium" "loggable eventID"
    and "unmarshal b = Some (signed_tx E t nation eventID payload)"
    and "t @ ''_'' @ eventID \<notin> applied (ledger_abs L db)"
  shows "\<exists>db'. deliver_tx E L unmarshal db b = Returned db' (result 0 []) \<and>
    ledger_abs L db' = spec_apply (signed_tx E t nation eventID payload) b (ledger_abs L db)"
proof -
  note auth = signed_tx_authentic [OF assms(2,3)]
  have fresh: "\<not> db_Has L db (processed_key t eventID)" using assms(1,6) by (simp add: has_processed)
  have "\<exists>db'. deliver_tx E L unmarshal db b = Returned db' (result 0 [])"
    using assms(4,5) auth fresh by (auto simp: deliver_tx_def state_machine_def Let_def)
  then obtain db' where d: "deliver_tx E L unmarshal db b = Returned db' (result 0 [])" by blast
  have "ledger_abs L db' = spec_apply (signed_tx E t nation eventID payload) b (ledger_abs L db)"
    using deliver_refines [OF assms(1) d] assms(5,6) auth by (simp add: spec_deliver_def op_key_def)
  with d show ?thesis by blast
qed

section \<open>Queries\<close>

text \<open>Keys with a single colon, which is what the scan's split on colons presumes.\<close>

definition plain_key :: "bytes \<Rightarrow> bool" where
  "plain_key k \<longleftrightarrow> count_list k CHR '':'' = 1"

lemma plain_key_prefix:
  "plain_key (p @ CHR '':'' # s) \<Longrightarrow> CHR '':'' \<notin> set p \<Longrightarrow> CHR '':'' \<notin> set s"
  by (simp add: plain_key_def count_list_append) (simp add: count_list_0_iff)

lemma plain_key_field:
  assumes "plain_key k" "HasPrefix k (p @ [CHR '':''])" "CHR '':'' \<notin> set p"
  obtains s where "k = p @ CHR '':'' # s" "Split k CHR '':'' ! 1 = s" "CHR '':'' \<notin> set s"
proof -
  obtain s where k: "k = p @ CHR '':'' # s" using assms(2) by (auto simp: HasPrefix_iff)
  then have "CHR '':'' \<notin> set s" using plain_key_prefix assms(1,3) by blast
  with k that assms(3) show thesis by (simp add: Split_append Split_no_sep)
qed

lemma collect_state_spec:
  assumes "distinct (map fst es)"
    and "\<And>k. k \<in> fst ` set es \<Longrightarrow> HasPrefix k ''balance:'' \<or> HasPrefix k ''report:'' \<Longrightarrow> plain_key k"
  shows "collect_state es (B, R) =
    ((\<lambda>n. case map_of es (balance_key n) of None \<Rightarrow> B n | Some v \<Rightarrow> Some (atoi_val v)),
     (\<lambda>e. case map_of es (''report:'' @ e) of None \<Rightarrow> R e | Some v \<Rightarrow> Some v))"
  using assms
proof (induction es arbitrary: B R)
  case (Cons kv es)
  obtain k v where kv: "kv = (k, v)" by fastforce
  have new: "map_of es k = None" using Cons.prems(1) kv by (simp add: map_of_eq_None_iff)
  have IH: "\<And>B R. collect_state es (B, R) =
    ((\<lambda>n. case map_of es (balance_key n) of None \<Rightarrow> B n | Some v \<Rightarrow> Some (atoi_val v)),
     (\<lambda>e. case map_of es (''report:'' @ e) of None \<Rightarrow> R e | Some v \<Rightarrow> Some v))"
    using Cons.prems by (intro Cons.IH) auto
  consider (b) "HasPrefix k ''balance:''" | (r) "\<not> HasPrefix k ''balance:''" "HasPrefix k ''report:''"
    | (o) "\<not> HasPrefix k ''balance:''" "\<not> HasPrefix k ''report:''" by blast
  then show ?case
  proof cases
    case b
    then have "plain_key k" using Cons.prems(2) kv by simp
    then obtain s where s: "k = ''balance:'' @ s" "Split k CHR '':'' ! 1 = s"
      using b by (auto elim!: plain_key_field [where p = "''balance''"])
    have step: "collect_state ((k, v) # es) (B, R) = collect_state es (B(s \<mapsto> atoi_val v), R)" using b s(2) by simp
    show ?thesis unfolding kv step IH using s(1) new by (auto simp: fun_eq_iff key_defs split: option.split)
  next
    case r
    then have "plain_key k" using Cons.prems(2) kv by simp
    then obtain s where s: "k = ''report:'' @ s" "Split k CHR '':'' ! 1 = s"
      using r by (auto elim!: plain_key_field [where p = "''report''"])
    have step: "collect_state ((k, v) # es) (B, R) = collect_state es (B, R(s \<mapsto> v))" using r s(2) by simp
    show ?thesis unfolding kv step IH using s(1) new by (auto simp: fun_eq_iff key_defs split: option.split)
  next
    case o
    then have "\<And>n. k \<noteq> balance_key n" "\<And>e. k \<noteq> ''report:'' @ e" by (auto simp: HasPrefix_iff key_defs)
    then show ?thesis using kv o IH by (auto simp: fun_eq_iff)
  qed
qed simp

text \<open>When nation and event names hold no colon, the scan finds exactly the balances and the reports of the ledger.\<close>

lemma collect_state_complete:
  assumes "leveldb_ok L"
    and "\<forall>k. db_Get L db k \<noteq> None \<longrightarrow> HasPrefix k ''balance:'' \<or> HasPrefix k ''report:'' \<longrightarrow> plain_key k"
  shows "collect_state (db_Iter L db) (Map.empty, Map.empty) = (bal (ledger_abs L db), reps (ledger_abs L db))"
proof -
  have "\<And>k. k \<in> fst ` set (db_Iter L db) \<Longrightarrow> db_Get L db k \<noteq> None"
    using leveldb_okD(4) [OF assms(1), of db] by (metis map_of_eq_None_iff)
  then show ?thesis
    using assms by (subst collect_state_spec) (auto simp: leveldb_okD ledger_abs_def fun_eq_iff split: option.splits)
qed

section \<open>What the code does not prevent\<close>

text \<open>C35. Balances can become negative. \<open>FinalizeBlock\<close> never looks at the balance, and \<open>CheckTx\<close> looks only
  at the committed one: with one credit left, two signed debits for two events both pass the
  mempool check, both are accepted in the same block, and the balance ends at -1.\<close>

theorem overdraft_possible:
  assumes "leveldb_ok L" "ed25519_ok E" "nation \<in> consortium" "loggable e1" "loggable e2" "e1 \<noteq> e2"
    and "unmarshal b1 = Some (signed_tx E ''SPEND_CREDIT'' nation e1 p1)"
    and "unmarshal b2 = Some (signed_tx E ''SPEND_CREDIT'' nation e2 p2)"
    and "''SPEND_CREDIT'' @ ''_'' @ e1 \<notin> applied (ledger_abs L db)"
    and "''SPEND_CREDIT'' @ ''_'' @ e2 \<notin> applied (ledger_abs L db)"
    and "bal (ledger_abs L db) nation = Some 1"
  shows "Code (CheckTx L unmarshal db b1) = 0 \<and> Code (CheckTx L unmarshal db b2) = 0 \<and>
    (\<exists>db'. FinalizeBlock E L unmarshal db [b1, b2] = Returned db' [result 0 [], result 0 []] \<and>
       bal (ledger_abs L db') nation = Some (- 1))"
proof -
  obtain db1 where db1: "deliver_tx E L unmarshal db b1 = Returned db1 (result 0 [])"
    "ledger_abs L db1 = spec_apply (signed_tx E ''SPEND_CREDIT'' nation e1 p1) b1 (ledger_abs L db)"
    using signed_tx_applied [where unmarshal = unmarshal, OF assms(1-4,7,9)] by blast
  have "''SPEND_CREDIT'' @ ''_'' @ e2 \<notin> applied (ledger_abs L db1)"
    using db1(2) assms(6,10) by (simp add: spec_apply_def op_key_def)
  then obtain db2 where db2: "deliver_tx E L unmarshal db1 b2 = Returned db2 (result 0 [])"
    "ledger_abs L db2 = spec_apply (signed_tx E ''SPEND_CREDIT'' nation e2 p2) b2 (ledger_abs L db1)"
    using signed_tx_applied [where unmarshal = unmarshal, OF assms(1-3,5,8)] by blast
  have "bal (ledger_abs L db2) nation = Some (- 1)"
    using db1 db2 assms(11) by (simp add: spec_apply_def is_spend_def wrap64_def)
  moreover have "Code (CheckTx L unmarshal db b1) = 0" "Code (CheckTx L unmarshal db b2) = 0"
    using assms(7,8,11) by (auto simp: CheckTx_def ledger_abs_def Let_def split: option.splits)
  ultimately show ?thesis using db1 db2 by simp
qed

lemma example_signed:
  "example_unmarshal ''tx1'' = Some (signed_tx example_ed25519 ''SPEND_CREDIT'' ''BR'' ''event-0001'' [])"
  "example_unmarshal ''tx2'' = Some (signed_tx example_ed25519 ''SPEND_CREDIT'' ''BR'' ''event-0002'' [])"
  "example_unmarshal ''short'' = Some (signed_tx example_ed25519 ''SPEND_CREDIT'' ''BR'' ''e1'' [])"
  by (simp_all add: example_unmarshal_def example_tx_def)

lemma example_fresh: "k \<notin> applied (ledger_abs example_leveldb (example_db c))"
  by (simp add: ledger_abs_def example_leveldb_def example_db_def key_defs)

lemma example_balance: "bal (ledger_abs example_leveldb (example_db c)) ''BR'' = Some (atoi_val c)"
  by (simp add: ledger_abs_def example_leveldb_def example_db_def)

theorem overdraft_possible_witness:
  "\<exists>db'. example_block (example_db ''1'') [''tx1'', ''tx2''] = Returned db' [result 0 [], result 0 []] \<and>
     bal (ledger_abs example_leveldb db') ''BR'' = Some (- 1)"
proof -
  have l: "loggable ''event-0001''" "loggable ''event-0002''" by (simp_all add: loggable_def)
  have n: "''BR'' \<in> consortium" and d: "''event-0001'' \<noteq> ''event-0002''" by simp_all
  show ?thesis
    using overdraft_possible [where unmarshal = example_unmarshal, OF example_leveldb_ok example_ed25519_ok n l d
        example_signed(1,2) example_fresh example_fresh, of "''1''"]
    by (simp add: example_balance example_numbers del: FinalizeBlock.simps)
qed

text \<open>C36. A debit whose event name is shorter than eight bytes is charged without being recorded: the log
  line that follows the write of the balance panics, so the credit is gone while the
  operation is neither locked nor filed, and submitting it again charges it again.\<close>

theorem short_event_charged_repeatedly:
  assumes "leveldb_ok L" "ed25519_ok E" "nation \<in> consortium" "\<not> loggable e"
    and "unmarshal b = Some (signed_tx E ''SPEND_CREDIT'' nation e p)"
    and "''SPEND_CREDIT'' @ ''_'' @ e \<notin> applied (ledger_abs L db)"
    and "bal (ledger_abs L db) nation = Some c" "1 - 2 ^ 63 < c"
  shows "\<exists>db1 db2. deliver_tx E L unmarshal db b = Panicked db1 SliceOutOfRange \<and>
    deliver_tx E L unmarshal db1 b = Panicked db2 SliceOutOfRange \<and>
    ledger_abs L db2 = (ledger_abs L db)\<lparr>bal := (bal (ledger_abs L db))(nation \<mapsto> c - 2)\<rparr>"
proof -
  have step: "\<exists>d'. deliver_tx E L unmarshal d b = Panicked d' SliceOutOfRange \<and>
      ledger_abs L d' = (ledger_abs L d)\<lparr>bal := (bal (ledger_abs L d))(nation \<mapsto> x - 1)\<rparr>"
    if d: "''SPEND_CREDIT'' @ ''_'' @ e \<notin> applied (ledger_abs L d)" "bal (ledger_abs L d) nation = Some x"
      "- (2 ^ 63) < x" for d x
  proof -
    have "int64 (x - 1)" using bal_int64 [OF d(2)] d(3) by (simp add: int64_def)
    moreover have "\<not> db_Has L d (processed_key ''SPEND_CREDIT'' e)" using assms(1) d(1) by (simp add: has_processed)
    ultimately show ?thesis
      using assms(1,4,5) signed_tx_authentic [OF assms(2,3)] d(2)
      by (simp add: deliver_tx_def state_machine_def Let_def balance_value ledger_simps)
  qed
  obtain db1 where db1: "deliver_tx E L unmarshal db b = Panicked db1 SliceOutOfRange"
    "ledger_abs L db1 = (ledger_abs L db)\<lparr>bal := (bal (ledger_abs L db))(nation \<mapsto> c - 1)\<rparr>"
    using step [OF assms(6,7)] assms(8) by auto
  moreover from db1 obtain db2 where "deliver_tx E L unmarshal db1 b = Panicked db2 SliceOutOfRange"
    "ledger_abs L db2 = (ledger_abs L db1)\<lparr>bal := (bal (ledger_abs L db1))(nation \<mapsto> (c - 1) - 1)\<rparr>"
    using step [of db1 "c - 1"] assms(6,8) by auto
  ultimately show ?thesis by auto
qed

theorem short_event_charged_repeatedly_witness:
  "\<exists>db1 db2. deliver_tx example_ed25519 example_leveldb example_unmarshal (example_db ''1000'') ''short'' = Panicked db1 SliceOutOfRange \<and>
     deliver_tx example_ed25519 example_leveldb example_unmarshal db1 ''short'' = Panicked db2 SliceOutOfRange \<and>
     bal (ledger_abs example_leveldb db2) ''BR'' = Some 998"
proof -
  have n: "''BR'' \<in> consortium" and l: "\<not> loggable ''e1''" by (simp_all add: loggable_def)
  show ?thesis
    using short_event_charged_repeatedly [where unmarshal = example_unmarshal, OF example_leveldb_ok example_ed25519_ok
        n l example_signed(3) example_fresh example_balance, of "''1000''"]
    by (auto simp: example_numbers)
qed

text \<open>A transaction nobody signed can stop a validator: with the name of a consortium nation, a
  well-formed but wrong signature and an event name shorter than eight bytes, it passes the
  mempool check (which verifies no signature) and its delivery panics in the log line that
  reports the forgery.\<close>

lemma forged_short_event_panics:
  assumes "ed25519_ok E" "unmarshal b = Some tx" "tx_NationID tx \<in> consortium" "\<not> is_spend tx"
    and "hex_DecodeString (tx_Signature tx) = Some sig" "length sig = 64"
    and "\<not> Verify E (PublicKey E (NewKeyFromSeed E (seed_of (tx_NationID tx))))
      (tx_Type tx @ tx_NationID tx @ tx_EventID tx) sig"
    and "\<not> loggable (tx_EventID tx)"
  shows "Code (CheckTx L unmarshal db b) = 0 \<and> deliver_tx E L unmarshal db b = Panicked db SliceOutOfRange"
proof -
  have "AuthorizedKeys E (tx_NationID tx) =
      Some (hex_EncodeToString (PublicKey E (NewKeyFromSeed E (seed_of (tx_NationID tx)))))"
    using assms(3) by (auto simp: AuthorizedKeys_nation)
  then have "check_signature E tx = Inr Forged"
    using assms(1,5-7) by (simp add: check_signature_def ed25519_ok_def)
  then show ?thesis using assms(2,4,8) by (simp add: CheckTx_def deliver_tx_def is_spend_def)
qed

text \<open>Locks of different operations collide. A lock joins type and event with an underscore, and a
  transaction of an unknown type is accepted, so a nation that signs one of type \<open>SPEND\<close> for the
  event \<open>CREDIT_e\<close> takes the lock of the debit for event \<open>e\<close>: that debit, by any nation, is
  then refused as already processed.\<close>

lemma unknown_type_blocks_debit:
  assumes "leveldb_ok L" "ed25519_ok E" "saboteur \<in> consortium" "nation \<in> consortium" "loggable e"
    and "unmarshal b1 = Some (signed_tx E ''SPEND'' saboteur (''CREDIT_'' @ e) p1)"
    and "unmarshal b2 = Some (signed_tx E ''SPEND_CREDIT'' nation e p2)"
    and "''SPEND'' @ ''_'' @ ''CREDIT_'' @ e \<notin> applied (ledger_abs L db)"
  shows "\<exists>db' r. FinalizeBlock E L unmarshal db [b1, b2] = Returned db' [result 0 [], r] \<and> Code r = 5 \<and>
    bal (ledger_abs L db') = bal (ledger_abs L db)"
proof -
  have l: "loggable (''CREDIT_'' @ e)" using assms(5) by (simp add: loggable_def)
  obtain db1 where db1: "deliver_tx E L unmarshal db b1 = Returned db1 (result 0 [])"
    "ledger_abs L db1 = spec_apply (signed_tx E ''SPEND'' saboteur (''CREDIT_'' @ e) p1) b1 (ledger_abs L db)"
    using signed_tx_applied [where unmarshal = unmarshal, OF assms(1-3) l assms(6,8)] by blast
  have "db_Has L db1 (processed_key ''SPEND_CREDIT'' e)"
    using db1(2) assms(1) by (simp add: has_processed spec_apply_def op_key_def)
  then have "\<exists>r. deliver_tx E L unmarshal db1 b2 = Returned db1 r \<and> Code r = 5"
    using signed_tx_authentic [OF assms(2,4)] assms(5,7) by (simp add: deliver_tx_def)
  moreover have "bal (ledger_abs L db1) = bal (ledger_abs L db)"
    using db1(2) by (simp add: spec_apply_def is_spend_def)
  ultimately show ?thesis using db1(1) by auto
qed

end
