(* ===== verification/Ledger_Client.thy ===== *)
theory Ledger_Client
  imports Mission_Model HTTP_Client Ledger_Limits
begin

text \<open>
  The broker's client of the ledger, \<open>src/cmd/broker/ledger_client.go\<close>. What the JSON library makes of
  the requests and answers is the record \<open>rpc_json\<close>, and the network is the record \<open>network\<close>: what
  happens at each attempt of a request with a given address and body. \<open>node_serves\<close> states what a
  CometBFT node documents of \<open>broadcast_tx_sync\<close>: its answer carries the result of \<open>CheckTx\<close>.
\<close>

section \<open>Messages\<close>

record CometRPCResponse =
  rpc_Code :: int
  rpc_Log :: string

record ABCIQueryResponse =
  abci_Code :: nat
  abci_Value :: bytes
  abci_Log :: string

record rpc_json =
  marshal_tx :: "Transaction \<Rightarrow> bytes"
  marshal_rpc :: "nat \<Rightarrow> string \<Rightarrow> string \<Rightarrow> bytes"
  decode_rpc :: "bytes \<Rightarrow> CometRPCResponse option"
  decode_abci :: "bytes \<Rightarrow> ABCIQueryResponse option"

record network =
  net_post :: "string \<Rightarrow> bytes \<Rightarrow> nat \<Rightarrow> attempt"
  net_get :: "string \<Rightarrow> nat \<Rightarrow> attempt"

section \<open>The client\<close>

record LedgerClient =
  CometBFTUrl :: string
  lc_HTTPClient :: HTTPClient

definition NewLedgerClient :: "string \<Rightarrow> LedgerClient" where
  "NewLedgerClient cometURL = \<lparr>CometBFTUrl = cometURL, lc_HTTPClient = NewHTTPClient (2 * Second)\<rparr>"

text \<open>Posting a transaction, as both operations do, and reading the code of the answer.\<close>

definition broadcast_tx :: "rpc_json \<Rightarrow> network \<Rightarrow> LedgerClient \<Rightarrow> nat \<Rightarrow> Transaction \<Rightarrow> bool" where
  "broadcast_tx J net lc rpc_id tx =
     (let txBytes = marshal_tx J tx;
          payload = marshal_rpc J rpc_id ''broadcast_tx_sync'' (base64_EncodeToString txBytes)
      in case fst (PostJSON (lc_HTTPClient lc) (Some payload) (net_post net (CometBFTUrl lc) payload) (Some (decode_rpc J))) of
           Inl err \<Rightarrow> False
         | Inr None \<Rightarrow> True
         | Inr (Some rpcResp) \<Rightarrow> if rpc_Code rpcResp \<noteq> 0 then False else True)"

definition spend_tx :: "'sk ed25519 \<Rightarrow> SensorData \<Rightarrow> Transaction" where
  "spend_tx E data =
     \<lparr>tx_Type = ''SPEND_CREDIT'', tx_NationID = NationID data, tx_EventID = EventID data,
      tx_Signature = SignTransaction E (NationID data) ''SPEND_CREDIT'' (EventID data), tx_Payload = []\<rparr>"

definition SpendCredit :: "'sk ed25519 \<Rightarrow> rpc_json \<Rightarrow> network \<Rightarrow> LedgerClient \<Rightarrow> SensorData \<Rightarrow> bool" where
  "SpendCredit E J net lc data = broadcast_tx J net lc 1 (spend_tx E data)"

definition report_tx :: "'sk ed25519 \<Rightarrow> SensorData \<Rightarrow> bytes \<Rightarrow> Transaction" where
  "report_tx E data reportPayload =
     \<lparr>tx_Type = ''SAVE_REPORT'', tx_NationID = NationID data, tx_EventID = EventID data,
      tx_Signature = SignTransaction E (NationID data) ''SAVE_REPORT'' (EventID data), tx_Payload = reportPayload\<rparr>"

definition SaveReport :: "'sk ed25519 \<Rightarrow> rpc_json \<Rightarrow> network \<Rightarrow> LedgerClient \<Rightarrow> SensorData \<Rightarrow> bytes \<Rightarrow> bool" where
  "SaveReport E J net lc data reportPayload = broadcast_tx J net lc 2 (report_tx E data reportPayload)"

datatype query_error = QueryFailed http_error | LedgerError string

definition QueryGlobalState :: "rpc_json \<Rightarrow> network \<Rightarrow> LedgerClient \<Rightarrow> query_error + bytes" where
  "QueryGlobalState J net lc =
     (let url = CometBFTUrl lc @ ''/abci_query?path='' @ [CHR 0x22] @ ''state'' @ [CHR 0x22]
      in case fst (GetJSON (lc_HTTPClient lc) (net_get net url) (Some (decode_abci J))) of
           Inl err \<Rightarrow> Inl (QueryFailed err)
         | Inr None \<Rightarrow> Inr []
         | Inr (Some abciResp) \<Rightarrow>
             if abci_Code abciResp \<noteq> 0 then Inl (LedgerError (abci_Log abciResp))
             else Inr (abci_Value abciResp))"

section \<open>A node that answers\<close>

text \<open>
  The node answers one of the first four attempts, after failures that may pass, and the answer
  carries what \<open>CheckTx\<close> says of the transaction.
\<close>

definition answers :: "(nat \<Rightarrow> bool) \<Rightarrow> (nat \<Rightarrow> attempt) \<Rightarrow> (bytes \<Rightarrow> bool) \<Rightarrow> bool" where
  "answers retryable net good \<longleftrightarrow>
     (\<exists>k \<le> 3. (\<forall>i < k. transient retryable (net i)) \<and> (\<exists>body. net k = Answer 200 body \<and> good body))"

definition node_serves ::
    "'db leveldb \<Rightarrow> (bytes \<Rightarrow> Transaction option) \<Rightarrow> 'db \<Rightarrow> rpc_json \<Rightarrow> network \<Rightarrow> string \<Rightarrow> nat \<Rightarrow> bytes \<Rightarrow> bool" where
  "node_serves L unmarshal db J net url rpc_id txBytes \<longleftrightarrow>
     (let r = CheckTx L unmarshal db txBytes
      in answers post_retryable (net_post net url (marshal_rpc J rpc_id ''broadcast_tx_sync'' (base64_EncodeToString txBytes)))
           (\<lambda>body. decode_rpc J body = Some \<lparr>rpc_Code = int (Code r), rpc_Log = Log r\<rparr>))"

lemma find_first:
  assumes "k < n" "\<not> P (f k)" "\<forall>i < k. P (f i)"
  shows "find (\<lambda>i. \<not> P (f i)) [0..<n] = Some k"
  using assms by (auto simp: find_Some_iff simp del: upt_Suc intro!: exI [of _ k])

text \<open>A request that is answered gives the decoded body, whatever failed before.\<close>

lemma answered_request:
  assumes "answers retryable net good" "maxRetries hc = 3" "\<not> retryable 200"
  shows "\<exists>body. good body \<and> fst (spec_request hc retryable (Some dec) net) =
    (case dec body of None \<Rightarrow> Inl DecodeFailed | Some v \<Rightarrow> Inr (Some v))"
proof -
  obtain k body where k: "k \<le> 3" "\<forall>i < k. transient retryable (net i)" "net k = Answer 200 body" "good body"
    using assms(1) by (auto simp: answers_def)
  have "find (\<lambda>i. \<not> transient retryable (net i)) [0..<Suc (maxRetries hc)] = Some k"
    by (rule find_first [where P = "transient retryable"]) (use k assms in auto)
  then have "fst (spec_request hc retryable (Some dec) net) = read_answer (Some dec) 200 body"
    using k(3) by (simp add: spec_request_def del: upt_Suc)
  then show ?thesis using k(4) by (auto simp: read_answer_def)
qed

lemma maxRetries_New [simp]: "maxRetries (lc_HTTPClient (NewLedgerClient url)) = 3"
  by (simp add: NewLedgerClient_def NewHTTPClient_def)

lemma broadcast_tx_served:
  assumes "node_serves L unmarshal db J net url rpc_id (marshal_tx J tx)"
  shows "broadcast_tx J net (NewLedgerClient url) rpc_id tx \<longleftrightarrow> Code (CheckTx L unmarshal db (marshal_tx J tx)) = 0"
proof -
  let ?hc = "lc_HTTPClient (NewLedgerClient url)"
  let ?p = "marshal_rpc J rpc_id ''broadcast_tx_sync'' (base64_EncodeToString (marshal_tx J tx))"
  have "CometBFTUrl (NewLedgerClient url) = url" by (simp add: NewLedgerClient_def)
  moreover have "\<exists>r. rpc_Code r = int (Code (CheckTx L unmarshal db (marshal_tx J tx))) \<and>
      fst (PostJSON ?hc (Some ?p) (net_post net url ?p) (Some (decode_rpc J))) = Inr (Some r)"
    using answered_request [OF assms [unfolded node_serves_def Let_def] maxRetries_New [of url], where dec = "decode_rpc J"]
    unfolding PostJSON_def option.case request_loop_spec by (auto simp: post_retryable_def)
  ultimately show ?thesis by (auto simp: broadcast_tx_def Let_def)
qed

lemma SpendCredit_served:
  assumes "unmarshal (marshal_tx J (spend_tx E data)) = Some (spend_tx E data)"
    and "node_serves L unmarshal db J net url 1 (marshal_tx J (spend_tx E data))"
  shows "SpendCredit E J net (NewLedgerClient url) data \<longleftrightarrow>
    (\<exists>c > 0. bal (ledger_abs L db) (NationID data) = Some c)"
proof -
  have "is_spend (spend_tx E data)" "tx_NationID (spend_tx E data) = NationID data"
    by (simp_all add: spend_tx_def is_spend_def)
  then show ?thesis
    unfolding SpendCredit_def broadcast_tx_served [OF assms(2)]
    using CheckTx_code [where unmarshal = unmarshal and L = L and db = db, OF assms(1)] by simp
qed

section \<open>Properties\<close>

text \<open>A codec, a node and a database for closed examples.\<close>

definition example_json :: rpc_json where
  "example_json =
     \<lparr>marshal_tx = (\<lambda>tx. if tx_EventID tx = ''event-0001'' then ''tx1'' else ''tx2''),
      marshal_rpc = (\<lambda>i verb tx. tx),
      decode_rpc = (\<lambda>body. Some \<lparr>rpc_Code = int (length body), rpc_Log = body\<rparr>),
      decode_abci = (\<lambda>body. Some \<lparr>abci_Code = 0, abci_Value = body, abci_Log = []\<rparr>)\<rparr>"

text \<open>A node that fails once and then answers with success.\<close>

definition example_net :: network where
  "example_net =
     \<lparr>net_post = (\<lambda>url body i. if i = 0 then Answer 503 [] else Answer 200 []),
      net_get = (\<lambda>url i. if i = 0 then NoConnection else Answer 200 ''state'')\<rparr>"

definition example_data :: "string \<Rightarrow> SensorData" where
  "example_data e = zero_SensorData\<lparr>EventID := e, SensorID := ''s1'', SectorID := 1, IsRequisition := True, NationID := ''BR''\<rparr>"

lemma example_spend_decodes:
  "example_unmarshal (marshal_tx example_json (spend_tx example_ed25519 (example_data ''event-0001''))) =
     Some (spend_tx example_ed25519 (example_data ''event-0001''))"
  by (simp add: example_unmarshal_def example_json_def spend_tx_def example_data_def example_tx_def zero_SensorData_def)

lemma example_answers:
  "good [] \<Longrightarrow> answers post_retryable (net_post example_net url body) good"
  unfolding answers_def
  by (intro exI [of _ "1 :: nat"]) (auto simp: example_net_def post_retryable_def)

lemma example_node_serves:
  assumes "CheckTx example_leveldb example_unmarshal db tx = result 0 []"
  shows "node_serves example_leveldb example_unmarshal db example_json example_net url i tx"
  using assms unfolding node_serves_def Let_def by (intro example_answers) (simp add: example_json_def)

text \<open>C37. An approval is not a payment: for an event the ledger has already charged, \<open>SpendCredit\<close> still approves
  as long as the nation has credit, while the ledger turns the transaction down and charges
  nothing, so a broker that sees the event again queues a mission nobody pays for.\<close>

theorem approval_without_payment:
  assumes "leveldb_ok L" "ed25519_ok E" "NationID data \<in> consortium" "loggable (EventID data)"
    and "unmarshal (marshal_tx J (spend_tx E data)) = Some (spend_tx E data)"
    and "node_serves L unmarshal db J net url 1 (marshal_tx J (spend_tx E data))"
    and "''SPEND_CREDIT'' @ ''_'' @ EventID data \<in> applied (ledger_abs L db)"
    and "bal (ledger_abs L db) (NationID data) = Some c" "0 < c"
  shows "SpendCredit E J net (NewLedgerClient url) data \<and>
    (\<exists>log. deliver_tx E L unmarshal db (marshal_tx J (spend_tx E data)) = Returned db (result 5 log))"
proof -
  have "SpendCredit E J net (NewLedgerClient url) data"
    using SpendCredit_served [OF assms(5,6)] assms(8,9) by blast
  moreover have "check_signature E (spend_tx E data) = Inr Authentic"
    using signed_tx_authentic [OF assms(2,3)] by (simp add: spend_tx_def)
  moreover have "db_Has L db (processed_key ''SPEND_CREDIT'' (EventID data))"
    using assms(1,7) by (simp add: has_processed)
  ultimately show ?thesis using assms(4,5) by (auto simp: deliver_tx_def spend_tx_def Let_def)
qed

definition example_paid_db :: "(bytes \<times> bytes) list" where
  "example_paid_db = (processed_key ''SPEND_CREDIT'' ''event-0001'', ''true'') # example_db ''1''"

theorem approval_without_payment_witness:
  "SpendCredit example_ed25519 example_json example_net (NewLedgerClient ''http://node'') (example_data ''event-0001'') \<and>
   (\<exists>log. deliver_tx example_ed25519 example_leveldb example_unmarshal example_paid_db
      (marshal_tx example_json (spend_tx example_ed25519 (example_data ''event-0001''))) = Returned example_paid_db (result 5 log))"
proof -
  let ?tx = "spend_tx example_ed25519 (example_data ''event-0001'')"
  have m: "marshal_tx example_json ?tx = ''tx1''" by (simp add: example_json_def spend_tx_def example_data_def)
  have "CheckTx example_leveldb example_unmarshal example_paid_db ''tx1'' = result 0 []"
    by (simp add: CheckTx_def example_unmarshal_def example_tx_def example_leveldb_def example_paid_db_def example_db_def example_numbers key_defs)
  then have n: "node_serves example_leveldb example_unmarshal example_paid_db example_json example_net ''http://node'' 1 (marshal_tx example_json ?tx)"
    using example_node_serves m by simp
  have d: "EventID (example_data ''event-0001'') = ''event-0001''" "NationID (example_data ''event-0001'') = ''BR''"
    by (simp_all add: example_data_def)
  have a: "''SPEND_CREDIT'' @ ''_'' @ EventID (example_data ''event-0001'') \<in> applied (ledger_abs example_leveldb example_paid_db)"
    and b: "bal (ledger_abs example_leveldb example_paid_db) (NationID (example_data ''event-0001'')) = Some 1"
    by (simp_all add: d ledger_abs_def example_leveldb_def example_paid_db_def example_db_def key_defs example_numbers)
  have "NationID (example_data ''event-0001'') \<in> consortium" "loggable (EventID (example_data ''event-0001''))"
    by (simp_all add: d loggable_def)
  from approval_without_payment [where unmarshal = example_unmarshal,
      OF example_leveldb_ok example_ed25519_ok this example_spend_decodes n a b]
  show ?thesis by simp
qed

end
