(* ===== verification/Idempotency.thy ===== *)
theory Idempotency
  imports Dedup
begin

text \<open>
  The idempotency filter of \<open>src/internal/inventory/idempotency_table.go\<close>: a concurrent map from
  event names to expiry times. \<open>CheckAndAdd\<close> is one atomic \<open>LoadOrStore\<close>; the cleanup goroutine is one
  pass of its loop, which visits the keys in an order the run-time chooses. The filter meets the
  contract \<open>dedup\<close> between two cleanups, and the window lemma says what holds across them.
\<close>

section \<open>The filter\<close>

record IdempotencyFilter =
  seen :: "string \<rightharpoonup> int"
  ttl :: duration

definition NewIdempotencyFilter :: "duration \<Rightarrow> IdempotencyFilter" where
  "NewIdempotencyFilter t = \<lparr>seen = Map.empty, ttl = t\<rparr>"

definition LoadOrStore :: "(string \<rightharpoonup> 'v) \<Rightarrow> string \<Rightarrow> 'v \<Rightarrow> (string \<rightharpoonup> 'v) \<times> 'v \<times> bool" where
  "LoadOrStore m k v = (case m k of Some old \<Rightarrow> (m, old, True) | None \<Rightarrow> (m(k \<mapsto> v), v, False))"

definition CheckAndAdd :: "instant \<Rightarrow> IdempotencyFilter \<Rightarrow> string \<Rightarrow> IdempotencyFilter \<times> bool" where
  "CheckAndAdd now f eventID =
     (let (seen', _, loaded) = LoadOrStore (seen f) eventID (now + ttl f)
      in (f\<lparr>seen := seen'\<rparr>, \<not> loaded))"

text \<open>One pass of \<open>cleanupWorker\<close> over the keys in the given order.\<close>

fun cleanup_range :: "instant \<Rightarrow> string list \<Rightarrow> (string \<rightharpoonup> int) \<Rightarrow> (string \<rightharpoonup> int)" where
  "cleanup_range now [] m = m"
| "cleanup_range now (key # keys) m =
     (case m key of
        None \<Rightarrow> cleanup_range now keys m
      | Some expiry \<Rightarrow> cleanup_range now keys (if now > expiry then m(key := None) else m))"

definition cleanupWorker_pass :: "instant \<Rightarrow> string list \<Rightarrow> IdempotencyFilter \<Rightarrow> IdempotencyFilter" where
  "cleanupWorker_pass now order f = f\<lparr>seen := cleanup_range now order (seen f)\<rparr>"

section \<open>What the operations do\<close>

lemma CheckAndAdd_new: "seen f e = None \<Longrightarrow> CheckAndAdd now f e = (f\<lparr>seen := (seen f)(e \<mapsto> now + ttl f)\<rparr>, True)"
  by (simp add: CheckAndAdd_def LoadOrStore_def)

lemma CheckAndAdd_dup: "seen f e = Some x \<Longrightarrow> CheckAndAdd now f e = (f, False)"
  by (simp add: CheckAndAdd_def LoadOrStore_def)

lemmas CheckAndAdd_simps = CheckAndAdd_new CheckAndAdd_dup

lemma cleanup_range_lookup:
  "cleanup_range now ks m k =
     (case m k of None \<Rightarrow> None | Some x \<Rightarrow> if k \<in> set ks \<and> now > x then None else Some x)"
proof (induction ks arbitrary: m)
  case (Cons a ks)
  then show ?case by (cases "m a") (auto split: option.splits)
qed (simp split: option.splits)

interpretation filter: dedup "\<lambda>f (e, now). CheckAndAdd now f e" fst "\<lambda>f. dom (seen f)"
proof
  fix f x f' ok
  assume s: "(case x of (e, now) \<Rightarrow> CheckAndAdd now f e) = (f', ok)"
  obtain e now where x: "x = (e, now)" by fastforce
  show "dom (seen f) \<subseteq> dom (seen f')" using s x by (cases "seen f e") (auto simp: CheckAndAdd_simps)
next
  fix f x f'
  assume s: "(case x of (e, now) \<Rightarrow> CheckAndAdd now f e) = (f', True)"
  obtain e now where x: "x = (e, now)" by fastforce
  show "fst x \<notin> dom (seen f)" "fst x \<in> dom (seen f')"
    using s x by (cases "seen f e"; auto simp: CheckAndAdd_simps)+
qed

section \<open>Runs with cleanups\<close>

datatype filter_op = FCheck instant string | FCleanup instant "string list"

fun op_time :: "filter_op \<Rightarrow> instant" where
  "op_time (FCheck now e) = now"
| "op_time (FCleanup now ks) = now"

text \<open>The filter after a run and the events it let through, with the time it let them through.\<close>

fun filter_run :: "IdempotencyFilter \<Rightarrow> filter_op list \<Rightarrow> IdempotencyFilter \<times> (instant \<times> string) list" where
  "filter_run f [] = (f, [])"
| "filter_run f (FCheck now e # ops) =
     (let (f', ok) = CheckAndAdd now f e; (f'', out) = filter_run f' ops
      in (f'', if ok then (now, e) # out else out))"
| "filter_run f (FCleanup now ks # ops) = filter_run (cleanupWorker_pass now ks f) ops"

text \<open>An event that is still in the table with expiry \<open>x\<close> passes again only after \<open>x\<close>.\<close>

lemma remembered_until:
  assumes "seen f e = Some x" "(t, e) \<in> set (snd (filter_run f ops))" "sorted (map op_time ops)"
  shows "x < t"
  using assms
proof (induction f ops rule: filter_run.induct)
  case (2 f now e' ops)
  obtain f' ok where s: "CheckAndAdd now f e' = (f', ok)" by fastforce
  have keep: "seen f' e = Some x" and same: "e' = e \<Longrightarrow> \<not> ok"
    using s "2.prems"(1) by (cases "seen f e'"; auto simp: CheckAndAdd_simps)+
  then have "(t, e) \<in> set (snd (filter_run f' ops))"
    using "2.prems"(2) s by (auto simp: Let_def split: prod.splits if_splits)
  then show ?case using "2.IH" [OF s [symmetric] refl keep] "2.prems"(3) by simp
next
  case (3 f now ks ops)
  let ?f = "cleanupWorker_pass now ks f"
  show ?case
  proof (cases "seen ?f e")
    case None
    then have "now > x" using "3.prems"(1) by (auto simp: cleanupWorker_pass_def cleanup_range_lookup split: if_splits)
    moreover have "now \<le> t" if "sorted (now # map op_time ops)" "(t, e) \<in> set (snd (filter_run g ops))" for g
      using that
    proof (induction g ops rule: filter_run.induct)
      case (2 g n e' ops)
      then show ?case by (auto simp: Let_def split: prod.splits if_splits)
    qed auto
    ultimately show ?thesis using "3.prems"(2,3) by fastforce
  next
    case (Some y)
    then have "y = x" using "3.prems"(1) by (auto simp: cleanupWorker_pass_def cleanup_range_lookup split: if_splits)
    with Some "3.IH" "3.prems" show ?thesis by auto
  qed
qed simp

section \<open>Properties\<close>

text \<open>Between two cleanups the filter lets each event through at most once, however many copies of its
  packet arrive and whenever they arrive.\<close>

lemma filter_passes_once:
  "distinct (map fst (snd (accepted_run (\<lambda>f (e, now). CheckAndAdd now f e) f arrivals)))"
  by (rule filter.run_accepts_once)

text \<open>C28. Across cleanups the filter keeps its promise for a whole time-to-live: in any run of checks and
  cleanup passes in the order of time, if an event is let through at time \<open>t\<close>, it is let
  through again only after \<open>t\<close> plus the time-to-live.\<close>

theorem filter_window:
  assumes "sorted (map op_time (FCheck t e # ops))" "seen f e = None"
    and "(t', e) \<in> set (snd (filter_run (fst (CheckAndAdd t f e)) ops))"
  shows "t + ttl f < t'"
proof -
  have "seen (fst (CheckAndAdd t f e)) e = Some (t + ttl f)" using assms(2) by (simp add: CheckAndAdd_new)
  from remembered_until [OF this assms(3)] assms(1) show ?thesis by simp
qed

theorem filter_window_witness:
  "snd (filter_run (fst (CheckAndAdd 0 (NewIdempotencyFilter 60) ''ev'')) [FCheck 50 ''ev'', FCleanup 70 [''ev''], FCheck 80 ''ev''])
     = [(80, ''ev'')] \<and> 0 + ttl (NewIdempotencyFilter 60) < (80 :: int)"
proof -
  let ?f = "NewIdempotencyFilter 60"
  let ?ops = "[FCheck 50 ''ev'', FCleanup 70 [''ev''], FCheck 80 ''ev'']"
  have r: "snd (filter_run (fst (CheckAndAdd 0 ?f ''ev'')) ?ops) = [(80, ''ev'')]"
    by (simp add: NewIdempotencyFilter_def CheckAndAdd_simps cleanupWorker_pass_def)
  have "0 + ttl ?f < 80"
  proof (rule filter_window)
    show "(80, ''ev'') \<in> set (snd (filter_run (fst (CheckAndAdd 0 ?f ''ev'')) ?ops))" unfolding r by simp
  qed (simp_all add: NewIdempotencyFilter_def)
  with r show ?thesis by simp
qed

end
