(* ===== verification/Broker.thy ===== *)
theory Broker
  imports Broker_Buffers Ledger_Client Idempotency Lamport_Clock
begin

text \<open>
  A broker: \<open>src/cmd/broker/mission_processor.go\<close>, \<open>src/cmd/broker/http_server.go\<close> and \<open>src/cmd/broker/main.go\<close>. Its state is
  one record with the components \<open>main\<close> creates, the Lamport clock, the missions checked out to
  stations, the channel of raw packets and the messages it has sent. Each handler and each pass of
  a background loop is one definition; \<open>broker_step\<close> runs one of them. A panic in an HTTP handler is
  recovered by \<open>net/http\<close>, a panic in a goroutine ends the process. Readings of clocks, network
  interfaces and the network are arguments.

  A definition is one step of a run, also where the code takes several locks one after the other: \<open>HandleQueuePop\<close>
  dequeues under the lock of the queue and notes the mission under that of \<open>pendingMissions\<close>, and \<open>process\<close> takes those of
  the filter, the router, the waiting room and the queue in turn and waits for the ledger between them, in any of ten
  workers. The states in between are not states of this model; \<open>Broker_Workers\<close> takes these operations apart.
\<close>

section \<open>Parameters\<close>

text \<open>
  What the JSON library makes of the messages of the broker's API. \<open>decode_object\<close> gives the text of the
  error when a body is not a JSON object.
\<close>

record broker_json =
  unmarshal_data :: "bytes \<Rightarrow> SensorData option"
  marshal_data :: "SensorData \<Rightarrow> bytes"
  marshal_sync :: "string \<Rightarrow> string \<Rightarrow> Mission \<Rightarrow> bytes"
  decode_sync :: "bytes \<Rightarrow> (string \<times> string \<times> Mission) option"
  decode_resolve :: "bytes \<Rightarrow> (string \<times> Mission) option"
  marshal_mission :: "Mission \<Rightarrow> bytes"
  decode_object :: "bytes \<Rightarrow> string option"
  marshal_received :: bytes
  marshal_health :: "string \<Rightarrow> instant \<Rightarrow> bytes"
  show_query_error :: "query_error \<Rightarrow> string"

record ('r, 'sk) broker_cfg =
  cfg_ring :: "'r consistent"
  cfg_crypto :: "'sk ed25519"
  cfg_rpc :: rpc_json
  cfg_json :: broker_json
  cfg_ledger :: LedgerClient

section \<open>State\<close>

record PendingMission =
  pm_Mission :: Mission
  CheckoutTime :: instant

datatype message = Datagram string bytes | HTTPPost string bytes

record 'r broker =
  Queue :: PriorityQueue
  ShadowBuffer :: ShadowBufferManager
  Unverified :: UnverifiedBufferManager
  Filter :: IdempotencyFilter
  Router :: "'r SectorRouter"
  globalLamportClock :: uint64
  pendingMissions :: "string \<rightharpoonup> PendingMission"
  packetsChan :: "bytes list"
  callbacks :: nat
  outbox :: "message list"

definition NewBroker :: "('r, 'sk) broker_cfg \<Rightarrow> 'r broker" where
  "NewBroker cfg =
     \<lparr>Queue = New 100, ShadowBuffer = NewShadowBufferManager, Unverified = NewUnverifiedBufferManager,
      Filter = NewIdempotencyFilter (60 * Second), Router = NewSectorRouter (cfg_ring cfg) 25 ''tasks.broker'',
      globalLamportClock = 0, pendingMissions = Map.empty, packetsChan = [], callbacks = 0, outbox = []\<rparr>"

section \<open>Ingestion\<close>

text \<open>One turn of \<open>startUDPIngestion\<close>: a datagram is cut to the buffer, and dropped when the channel is full.\<close>

definition startUDPIngestion_turn :: "bytes option \<Rightarrow> 'r broker \<Rightarrow> 'r broker" where
  "startUDPIngestion_turn datagram s =
     (case datagram of
        None \<Rightarrow> s
      | Some raw \<Rightarrow>
          let packetCopy = take 1024 raw
          in if length (packetsChan s) < 5000 then s\<lparr>packetsChan := packetsChan s @ [packetCopy]\<rparr> else s)"

section \<open>The mission processor\<close>

definition forwardPacket :: "udp_result \<Rightarrow> string \<Rightarrow> bytes \<Rightarrow> message list" where
  "forwardPacket r targetIP payload =
     (case r of Sent \<Rightarrow> [Datagram (targetIP @ '':9000'') payload] | _ \<Rightarrow> [])"

definition broadcastValidationSync ::
    "('r, 'sk) broker_cfg \<Rightarrow> ifaddr list option \<Rightarrow> string \<Rightarrow> Mission \<Rightarrow> 'r broker \<Rightarrow> 'r broker" where
  "broadcastValidationSync cfg addrs action mission s =
     (let ips = GetAllMembers (cfg_ring cfg) (Router s);
          myIP = getLocalIP addrs;
          jsonData = marshal_sync (cfg_json cfg) action (event_of mission) mission
      in s\<lparr>outbox := outbox s @
             map (\<lambda>ip. HTTPPost (''http://'' @ ip @ '':8080/internal/shadow/sync'') jsonData) (filter (\<lambda>ip. ip \<noteq> myIP) ips)\<rparr>)"

text \<open>
  What one call of \<open>process\<close> reads from outside: the clock, twice; the values other goroutines leave in
  the Lamport cell; the interfaces; and the fate of the messages it sends.
\<close>

record process_env =
  env_now :: instant
  env_now' :: instant
  env_cas :: "uint64 list"
  env_addrs :: "ifaddr list option"
  env_udp :: udp_result
  env_net :: network

text \<open>\<open>clock.Tick()\<close>, replaced by \<open>clock.Sync\<close> when the packet carries a clock: the new cell and the mission's time.\<close>

definition stamp :: "process_env \<Rightarrow> SensorData \<Rightarrow> uint64 \<Rightarrow> uint64 \<times> uint64" where
  "stamp env data cell0 =
     (let (cell1, currentClock) = Tick cell0
      in if InternalClock data > 0 then Sync (env_cas env) (InternalClock data) cell1 else (cell1, currentClock))"

definition process :: "('r, 'sk) broker_cfg \<Rightarrow> process_env \<Rightarrow> bytes \<Rightarrow> 'r broker \<Rightarrow> 'r broker" where
  "process cfg env rawBytes s =
     (case unmarshal_data (cfg_json cfg) rawBytes of
        None \<Rightarrow> s
      | Some data \<Rightarrow>
          if \<not> IsRequisition data \<or> SensorID data = [] \<or> SectorID data \<le> 0 then s
          else
            let (filter', fresh) = CheckAndAdd (env_now env) (Filter s) (EventID data);
                s = s\<lparr>Filter := filter'\<rparr>
            in if \<not> fresh then s
               else
                 let (cell', currentClock) = stamp env data (globalLamportClock s);
                     s = s\<lparr>globalLamportClock := cell'\<rparr>;
                     mission = zero_Mission\<lparr>Payload := data, LamportClock := currentClock\<rparr>;
                     ownerIP = GetOwnerIP (cfg_ring cfg) (Router s) (SectorID data)
                 in if ownerIP \<noteq> [] \<and> \<not> isLocalIP (env_addrs env) ownerIP then
                      let s = s\<lparr>Unverified := unverified_Store (env_now' env) (Unverified s) mission\<rparr>;
                          rawWithClock = marshal_data (cfg_json cfg) (data\<lparr>InternalClock := currentClock\<rparr>)
                      in s\<lparr>outbox := outbox s @ forwardPacket (env_udp env) ownerIP rawWithClock\<rparr>
                    else if SpendCredit (cfg_crypto cfg) (cfg_rpc cfg) (env_net env) (cfg_ledger cfg) data then
                      broadcastValidationSync cfg (env_addrs env) ''ACK'' mission (s\<lparr>Queue := Enqueue (Queue s) mission\<rparr>)
                    else broadcastValidationSync cfg (env_addrs env) ''NACK'' mission s)"

text \<open>A worker takes the next packet of the channel and processes it; an empty channel makes it wait.\<close>

definition worker_turn :: "('r, 'sk) broker_cfg \<Rightarrow> process_env \<Rightarrow> 'r broker \<Rightarrow> 'r broker" where
  "worker_turn cfg env s =
     (case packetsChan s of
        [] \<Rightarrow> s
      | rawBytes # rest \<Rightarrow> process cfg env rawBytes (s\<lparr>packetsChan := rest\<rparr>))"

section \<open>The HTTP interface\<close>

definition healthCheck :: "('r, 'sk) broker_cfg \<Rightarrow> instant \<Rightarrow> response" where
  "healthCheck cfg now = reply 200 (marshal_health (cfg_json cfg) ''ok'' now)"

definition HandleQueuePop :: "('r, 'sk) broker_cfg \<Rightarrow> instant \<Rightarrow> string \<Rightarrow> 'r broker \<Rightarrow> ('r broker, response) outcome" where
  "HandleQueuePop cfg now verb s =
     (if verb \<noteq> ''GET'' then Returned s (http_Error ''Method not allowed'' 405)
      else
        let (q, mission, found) = Dequeue (Queue s)
        in if \<not> found then Returned (s\<lparr>Queue := q\<rparr>) (reply 204 [])
           else
             let eventID = event_of mission;
                 s = s\<lparr>Queue := q, pendingMissions := (pendingMissions s)(eventID \<mapsto> \<lparr>pm_Mission = mission, CheckoutTime = now\<rparr>)\<rparr>
             in bind_outcome (log_prefix8 s eventID) (\<lambda>s _. Returned s (reply 200 (marshal_mission (cfg_json cfg) mission))))"

definition HandleQueueResolve :: "('r, 'sk) broker_cfg \<Rightarrow> string \<Rightarrow> bytes \<Rightarrow> 'r broker \<Rightarrow> ('r broker, response) outcome" where
  "HandleQueueResolve cfg verb body s =
     (if verb \<noteq> ''POST'' then Returned s (http_Error ''Method not allowed'' 405)
      else case decode_resolve (cfg_json cfg) body of
             None \<Rightarrow> Returned s (http_Error ''Bad request'' 400)
           | Some (action, mission) \<Rightarrow>
               let eventID = event_of mission
               in case pendingMissions s eventID of
                    None \<Rightarrow> bind_outcome (log_prefix8 s eventID) (\<lambda>s _. Returned s (reply 200 []))
                  | Some _ \<Rightarrow>
                      let s = s\<lparr>pendingMissions := (pendingMissions s)(eventID := None)\<rparr>
                      in if action = ''REQUEUE'' then
                           bind_outcome (log_prefix8 (s\<lparr>Queue := Enqueue (Queue s) mission\<rparr>) eventID) (\<lambda>s _. Returned s (reply 200 []))
                         else if action = ''SUCCESS'' then
                           bind_outcome (log_prefix8 s eventID) (\<lambda>s _. Returned s (reply 200 []))
                         else Returned s (reply 200 []))"

definition HandleShadowSync ::
    "('r, 'sk) broker_cfg \<Rightarrow> instant \<Rightarrow> string \<Rightarrow> bytes \<Rightarrow> 'r broker \<Rightarrow> ('r broker, response) outcome" where
  "HandleShadowSync cfg now verb body s =
     (if verb \<noteq> ''POST'' then Returned s (http_Error ''Method not allowed'' 405)
      else case decode_sync (cfg_json cfg) body of
             None \<Rightarrow> Returned s (http_Error ''Bad request'' 400)
           | Some (action, eventID, mission) \<Rightarrow>
               if eventID = [] then Returned s (reply 400 [])
               else
                 let s = s\<lparr>Filter := fst (CheckAndAdd now (Filter s) eventID)\<rparr>
                 in if action = ''ACK'' then
                      let s = s\<lparr>Unverified := fst (RetrieveAndRemove (Unverified s) eventID)\<rparr>;
                          stored = shadow_Store (ShadowBuffer s) mission
                      in (case stored of
                            Panicked sb p \<Rightarrow> Panicked (s\<lparr>ShadowBuffer := sb\<rparr>) p
                          | Returned sb _ \<Rightarrow>
                              bind_outcome (log_prefix8 (s\<lparr>ShadowBuffer := sb\<rparr>) eventID) (\<lambda>s _. Returned s (reply 200 [])))
                    else if action = ''NACK'' then
                      let (bm, _, found) = RetrieveAndRemove (Unverified s) eventID; s = s\<lparr>Unverified := bm\<rparr>
                      in if found then bind_outcome (log_prefix8 s eventID) (\<lambda>s _. Returned s (reply 200 []))
                         else Returned s (reply 200 [])
                    else Returned s (reply 200 []))"

definition topologySync :: "('r, 'sk) broker_cfg \<Rightarrow> string \<Rightarrow> bytes \<Rightarrow> response" where
  "topologySync cfg verb body =
     (if verb \<noteq> ''POST'' then http_Error ''Method not allowed'' 405
      else case decode_object (cfg_json cfg) body of
             Some err \<Rightarrow> http_Error (''Invalid request: '' @ err) 400
           | None \<Rightarrow> reply 200 (marshal_received (cfg_json cfg)))"

definition handleExplorer :: "('r, 'sk) broker_cfg \<Rightarrow> network \<Rightarrow> string \<Rightarrow> response" where
  "handleExplorer cfg net verb =
     (if verb \<noteq> ''GET'' then http_Error (''M'' @ [CHR 0xC3, CHR 0xA9] @ ''todo n'' @ a_tilde @ ''o permitido'') 405
      else case QueryGlobalState (cfg_rpc cfg) net (cfg_ledger cfg) of
             Inl err \<Rightarrow> http_Error (''Falha ao ler a Blockchain: '' @ show_query_error (cfg_json cfg) err) 500
           | Inr stateJSON \<Rightarrow> reply 200 stateJSON)"

section \<open>Background loops\<close>

text \<open>One tick of \<open>startPendingJanitor\<close>.\<close>

fun startPendingJanitor_range :: "instant \<Rightarrow> string list \<Rightarrow> 'r broker \<Rightarrow> ('r broker, unit) outcome" where
  "startPendingJanitor_range now [] s = Returned s ()"
| "startPendingJanitor_range now (eventID # keys) s =
     (case pendingMissions s eventID of
        None \<Rightarrow> startPendingJanitor_range now keys s
      | Some pending \<Rightarrow>
          if now - CheckoutTime pending > 60 * Second
          then bind_outcome
                 (log_prefix8 (s\<lparr>pendingMissions := (pendingMissions s)(eventID := None),
                                 Queue := Enqueue (Queue s) (pm_Mission pending)\<rparr>) eventID)
                 (\<lambda>s _. startPendingJanitor_range now keys s)
          else startPendingJanitor_range now keys s)"

section \<open>The running broker\<close>

datatype broker_event =
    EDatagram "bytes option"
  | EWork process_env
  | EPop instant string
  | EResolve string bytes
  | ESync instant string bytes
  | EPending instant "string list"
  | EAging
  | EWaiting instant "string list"
  | EForget instant "string list"
  | ETopology "string list option"
  | ERescue "ifaddr list option" "string list"

fun broker_step :: "('r, 'sk) broker_cfg \<Rightarrow> 'r broker \<Rightarrow> broker_event \<Rightarrow> ('r broker, unit) outcome" where
  "broker_step cfg s (EDatagram d) = Returned (startUDPIngestion_turn d s) ()"
| "broker_step cfg s (EWork env) = Returned (worker_turn cfg env s) ()"
| "broker_step cfg s (EPop now verb) = recovered (HandleQueuePop cfg now verb s)"
| "broker_step cfg s (EResolve verb body) = recovered (HandleQueueResolve cfg verb body s)"
| "broker_step cfg s (ESync now verb body) = recovered (HandleShadowSync cfg now verb body s)"
| "broker_step cfg s (EPending now order) = startPendingJanitor_range now order s"
| "broker_step cfg s EAging = Returned (s\<lparr>Queue := antiStarvation_pass (globalLamportClock s) (Queue s)\<rparr>) ()"
| "broker_step cfg s (EWaiting now order) =
     on_state (\<lambda>bm. s\<lparr>Unverified := bm\<rparr>) (startJanitor_range now order (Unverified s))"
| "broker_step cfg s (EForget now order) = Returned (s\<lparr>Filter := cleanupWorker_pass now order (Filter s)\<rparr>) ()"
| "broker_step cfg s (ETopology ips) =
     (let (r, changed) = WatchTopology_pass (cfg_ring cfg) ips (Router s)
      in Returned (s\<lparr>Router := r, callbacks := callbacks s + (if changed then 1 else 0)\<rparr>) ())"
| "broker_step cfg s (ERescue addrs order) =
     (if callbacks s = 0 then Returned s ()
      else on_state (\<lambda>(sb, q). s\<lparr>callbacks := callbacks s - 1, ShadowBuffer := sb, Queue := q\<rparr>)
             (RescueOrphanedMissions (cfg_ring cfg) addrs (Router s) order (ShadowBuffer s) (Queue s)))"

fun broker_run :: "('r, 'sk) broker_cfg \<Rightarrow> 'r broker \<Rightarrow> broker_event list \<Rightarrow> ('r broker, unit) outcome" where
  "broker_run cfg s [] = Returned s ()"
| "broker_run cfg s (ev # evs) = bind_outcome (broker_step cfg s ev) (\<lambda>s _. broker_run cfg s evs)"

end
