(* ===== verification/Broker_Props.thy ===== *)
theory Broker_Props
  imports Broker
begin

text \<open>
  What the broker guarantees: its invariant, that no event it holds is lost, when it stays up, what
  one packet leads to, and how a mission survives the loss of the broker that owns it.
\<close>

section \<open>Held events\<close>

text \<open>The events a broker is answerable for: those in its queue and those checked out to a station.\<close>

definition held :: "'r broker \<Rightarrow> string set" where
  "held s = queued (Queue s) \<union> dom (pendingMissions s)"

definition pending_inv :: "(string \<rightharpoonup> PendingMission) \<Rightarrow> bool" where
  "pending_inv m \<longleftrightarrow> (\<forall>e p. m e = Some p \<longrightarrow> event_of (pm_Mission p) = e)"

definition broker_inv :: "'r broker \<Rightarrow> bool" where
  "broker_inv s \<longleftrightarrow> pq_invar (Queue s) \<and> shadow_inv (ShadowBuffer s) \<and> pending_inv (pendingMissions s)"

lemma broker_inv_New [simp]: "broker_inv (NewBroker cfg)"
  by (simp add: broker_inv_def NewBroker_def pending_inv_def)

lemma pending_inv_update:
  "pending_inv m \<Longrightarrow> pending_inv (m(k := None))"
  "pending_inv m \<Longrightarrow> event_of x = k \<Longrightarrow> pending_inv (m(k \<mapsto> \<lparr>pm_Mission = x, CheckoutTime = t\<rparr>))"
  by (auto simp: pending_inv_def)

text \<open>What each operation does to the invariant and to the held events, panics included.\<close>

definition keeps :: "string set \<Rightarrow> 'r broker \<Rightarrow> 'r broker \<Rightarrow> bool" where
  "keeps settled s s' \<longleftrightarrow> (broker_inv s \<longrightarrow> broker_inv s' \<and> held s - settled \<subseteq> held s')"

lemma keeps_refl [simp]: "keeps A s s"
  by (simp add: keeps_def)

lemma keeps_pop: "keeps {} s (out_state (HandleQueuePop cfg now verb s))"
proof (cases "verb = ''GET'' \<and> snd (snd (Dequeue (Queue s)))")
  case True
  then obtain q m where d: "Dequeue (Queue s) = (q, m, True)" by (cases "Dequeue (Queue s)") auto
  then have "pq_invar (Queue s) \<Longrightarrow> pq_invar q \<and> queued (Queue s) = insert (event_of m) (queued q)"
    using queued_Dequeue by blast
  with True d show ?thesis
    by (auto simp: keeps_def broker_inv_def held_def HandleQueuePop_def Let_def pending_inv_update)
next
  case False
  then show ?thesis
    by (auto simp: keeps_def HandleQueuePop_def Dequeue_def Let_def split: prod.splits if_splits)
qed

text \<open>The events a station reports as done, or with an action the broker does not know.\<close>

fun settles :: "('r, 'sk) broker_cfg \<Rightarrow> broker_event \<Rightarrow> string set" where
  "settles cfg (EResolve verb body) =
     (case decode_resolve (cfg_json cfg) body of
        Some (action, mission) \<Rightarrow> if action \<noteq> ''REQUEUE'' then {event_of mission} else {}
      | None \<Rightarrow> {})"
| "settles cfg _ = {}"

lemma keeps_resolve: "keeps (settles cfg (EResolve verb body)) s (out_state (HandleQueueResolve cfg verb body s))"
  by (auto simp: keeps_def broker_inv_def held_def HandleQueueResolve_def Let_def pending_inv_update pq.invar_enqueue
      split: option.splits)

text \<open>A gossip message touches neither the queue nor the missions checked out.\<close>

lemma sync_ACK_state:
  "decode_sync (cfg_json cfg) body = Some (''ACK'', eventID, mission) \<Longrightarrow> eventID \<noteq> [] \<Longrightarrow>
   out_state (HandleShadowSync cfg now ''POST'' body s) =
     s\<lparr>Filter := fst (CheckAndAdd now (Filter s) eventID),
       Unverified := fst (RetrieveAndRemove (Unverified s) eventID),
       ShadowBuffer := out_state (shadow_Store (ShadowBuffer s) mission)\<rparr>"
  by (cases "loggable (event_of mission)"; cases "loggable eventID") (simp_all add: HandleShadowSync_def shadow_Store_def)

lemma sync_other_state:
  assumes "\<And>eventID mission. decode_sync (cfg_json cfg) body = Some (''ACK'', eventID, mission) \<Longrightarrow> eventID = []"
  shows "ShadowBuffer (out_state (HandleShadowSync cfg now verb body s)) = ShadowBuffer s"
  using assms by (cases "decode_sync (cfg_json cfg) body") (auto simp: HandleShadowSync_def Let_def split: prod.split)

lemma sync_frame:
  "Queue (out_state (HandleShadowSync cfg now verb body s)) = Queue s \<and>
   pendingMissions (out_state (HandleShadowSync cfg now verb body s)) = pendingMissions s"
  by (cases "decode_sync (cfg_json cfg) body")
    (auto simp: HandleShadowSync_def Let_def split: prod.split outcome.split)

lemma sync_shadow:
  "(ShadowBuffer (out_state (HandleShadowSync cfg now verb body s)) = ShadowBuffer s) \<or>
   (\<exists>m. ShadowBuffer (out_state (HandleShadowSync cfg now verb body s)) = out_state (shadow_Store (ShadowBuffer s) m))"
proof (cases "verb = ''POST'' \<and> (\<exists>eventID mission. decode_sync (cfg_json cfg) body = Some (''ACK'', eventID, mission) \<and> eventID \<noteq> [])")
  case True
  then show ?thesis using sync_ACK_state [of cfg body _ _ now s] by auto
next
  case False
  then show ?thesis
    by (cases "verb = ''POST''") (use sync_other_state [of cfg body now verb s] in \<open>auto simp: HandleShadowSync_def\<close>)
qed

lemma keeps_sync: "keeps {} s (out_state (HandleShadowSync cfg now verb body s))"
proof -
  have "shadow_inv (ShadowBuffer s) \<longrightarrow> shadow_inv (ShadowBuffer (out_state (HandleShadowSync cfg now verb body s)))"
    using sync_shadow [of cfg now verb body s] shadow_inv_Store by metis
  then show ?thesis using sync_frame [of cfg now verb body s] by (simp add: keeps_def broker_inv_def held_def)
qed

lemma keeps_pending: "keeps {} s (out_state (startPendingJanitor_range now order s))"
proof (induction order arbitrary: s)
  case (Cons e order)
  show ?case
  proof (cases "\<exists>p. pendingMissions s e = Some p \<and> now - CheckoutTime p > 60 * Second")
    case True
    then obtain p where p: "pendingMissions s e = Some p" "now - CheckoutTime p > 60 * Second" by blast
    let ?s = "s\<lparr>pendingMissions := (pendingMissions s)(e := None), Queue := Enqueue (Queue s) (pm_Mission p)\<rparr>"
    have "keeps {} s ?s"
      using p by (auto simp: keeps_def broker_inv_def held_def pending_inv_update pq.invar_enqueue) (auto simp: pending_inv_def)
    moreover have "out_state (startPendingJanitor_range now (e # order) s) \<in>
        {?s, out_state (startPendingJanitor_range now order ?s)}"
      using p by (cases "loggable e") auto
    ultimately show ?thesis using Cons [of ?s] by (auto simp: keeps_def)
  next
    case False
    then show ?thesis using Cons [of s] by (auto split: option.splits)
  qed
qed simp

lemma keeps_process: "keeps {} s (process cfg env raw s)"
  by (auto simp: keeps_def broker_inv_def held_def process_def broadcastValidationSync_def Let_def pq.invar_enqueue
      split: option.splits prod.splits)

lemma keeps_rescue: "keeps {} s (out_state (broker_step cfg s (ERescue addrs order)))"
proof -
  let ?r = "RescueOrphanedMissions (cfg_ring cfg) addrs (Router s) order (ShadowBuffer s) (Queue s)"
  obtain sb q where o: "out_state ?r = (sb, q)" by fastforce
  have "broker_inv s \<Longrightarrow> shadow_inv sb \<and> pq_invar q \<and> queued (Queue s) \<subseteq> queued q"
    using rescue_range_conserves [of "ShadowBuffer s" "Queue s" _ order sb q] rescue_range_mono [of "Queue s" _ order "ShadowBuffer s"] o
    unfolding broker_inv_def RescueOrphanedMissions_def queued_def by (metis image_mono set_mset_mono snd_conv)
  moreover have "callbacks s \<noteq> 0 \<Longrightarrow> out_state (broker_step cfg s (ERescue addrs order)) = s\<lparr>callbacks := callbacks s - 1, ShadowBuffer := sb, Queue := q\<rparr>"
    using o by (cases ?r) auto
  ultimately show ?thesis by (cases "callbacks s = 0") (auto simp: keeps_def broker_inv_def held_def)
qed

lemma keeps_step: "keeps (settles cfg ev) s (out_state (broker_step cfg s ev))"
proof (cases ev)
  case (EDatagram d)
  then show ?thesis by (auto simp: keeps_def broker_inv_def held_def startUDPIngestion_turn_def Let_def split: option.splits)
next
  case (EWork env)
  have "broker_inv (s\<lparr>packetsChan := rest\<rparr>) = broker_inv s" "held (s\<lparr>packetsChan := rest\<rparr>) = held s" for rest
    by (simp_all add: broker_inv_def held_def)
  then show ?thesis
    using EWork keeps_process [of "s\<lparr>packetsChan := tl (packetsChan s)\<rparr>" cfg env "hd (packetsChan s)"]
    by (cases "packetsChan s") (auto simp: worker_turn_def keeps_def)
next
  case (EPop now verb)
  then show ?thesis using keeps_pop [of s cfg now verb] by (cases "HandleQueuePop cfg now verb s") auto
next
  case (EResolve verb body)
  then show ?thesis using keeps_resolve [of cfg verb body s] by (cases "HandleQueueResolve cfg verb body s") auto
next
  case (ESync now verb body)
  then show ?thesis using keeps_sync [of s cfg now verb body] by (cases "HandleShadowSync cfg now verb body s") auto
next
  case EAging
  then show ?thesis using queued_aging [of "Queue s"] by (auto simp: keeps_def broker_inv_def held_def)
next
  case (EWaiting now order)
  then show ?thesis by (cases "startJanitor_range now order (Unverified s)") (auto simp: keeps_def broker_inv_def held_def)
next
  case (ETopology ips)
  then show ?thesis by (auto simp: keeps_def broker_inv_def held_def split: prod.splits)
next
  case (EPending now order)
  then show ?thesis using keeps_pending [of s now order] by simp
next
  case (EForget now order)
  then show ?thesis by (simp add: keeps_def broker_inv_def held_def)
next
  case (ERescue addrs order)
  then show ?thesis using keeps_rescue [of s cfg addrs order] by simp
qed

lemma keeps_run:
  "broker_run cfg s evs = Returned s' u \<Longrightarrow> keeps (\<Union>ev \<in> set evs. settles cfg ev) s s'"
proof (induction evs arbitrary: s)
  case (Cons ev evs)
  then obtain t where t: "broker_step cfg s ev = Returned t ()" "broker_run cfg t evs = Returned s' u"
    by (auto simp: bind_outcome_Returned)
  have "keeps (settles cfg ev) s t" using keeps_step [of cfg ev s] t(1) by simp
  with Cons.IH [OF t(2)] show ?case by (auto simp: keeps_def)
qed simp

section \<open>Event names\<close>

text \<open>The names of the events a broker knows of, anywhere in its state, and those an input brings.\<close>

definition packet_names :: "('r, 'sk) broker_cfg \<Rightarrow> bytes \<Rightarrow> string set" where
  "packet_names cfg raw = (case unmarshal_data (cfg_json cfg) raw of None \<Rightarrow> {} | Some data \<Rightarrow> {EventID data})"

definition names :: "('r, 'sk) broker_cfg \<Rightarrow> 'r broker \<Rightarrow> string set" where
  "names cfg s = held s \<union> dom (Buffer (ShadowBuffer s)) \<union> dom (unv_buffer (Unverified s)) \<union>
     (\<Union>raw \<in> set (packetsChan s). packet_names cfg raw)"

fun input_names :: "('r, 'sk) broker_cfg \<Rightarrow> broker_event \<Rightarrow> string set" where
  "input_names cfg (EDatagram (Some raw)) = packet_names cfg (take 1024 raw)"
| "input_names cfg (ESync now verb body) =
     (case decode_sync (cfg_json cfg) body of None \<Rightarrow> {} | Some (action, eventID, mission) \<Rightarrow> {eventID, event_of mission})"
| "input_names cfg _ = {}"

lemma names_pop: "broker_inv s \<Longrightarrow> names cfg (out_state (HandleQueuePop cfg now verb s)) \<subseteq> names cfg s"
proof (cases "verb = ''GET'' \<and> snd (snd (Dequeue (Queue s)))")
  case True
  then obtain q m where d: "Dequeue (Queue s) = (q, m, True)" by (cases "Dequeue (Queue s)") auto
  moreover assume "broker_inv s"
  ultimately have "queued (Queue s) = insert (event_of m) (queued q)"
    using queued_Dequeue by (auto simp: broker_inv_def)
  with True d show ?thesis by (auto simp: names_def held_def HandleQueuePop_def Let_def)
next
  case False
  then show ?thesis by (auto simp: names_def held_def HandleQueuePop_def Dequeue_def Let_def split: prod.splits if_splits)
qed

lemma names_resolve:
  "broker_inv s \<Longrightarrow> names cfg (out_state (HandleQueueResolve cfg verb body s)) \<subseteq> names cfg s"
  by (auto simp: names_def held_def broker_inv_def HandleQueueResolve_def Let_def split: option.splits if_splits)

lemma dom_RetrieveAndRemove: "dom (unv_buffer (fst (RetrieveAndRemove bm e))) \<subseteq> dom (unv_buffer bm)"
  by (auto simp: RetrieveAndRemove_def split: option.splits if_splits)

lemma unverified_sync_cases:
  "Unverified (out_state (HandleShadowSync cfg now verb body s)) = Unverified s \<or>
   (\<exists>e. Unverified (out_state (HandleShadowSync cfg now verb body s)) = fst (RetrieveAndRemove (Unverified s) e))"
proof (cases "decode_sync (cfg_json cfg) body")
  case None
  then show ?thesis by (simp add: HandleShadowSync_def)
next
  case (Some x)
  obtain action e mission where x: "x = (action, e, mission)" by (cases x) auto
  obtain bm m found where r: "RetrieveAndRemove (Unverified s) e = (bm, m, found)" by (metis prod_cases3)
  have "Unverified (out_state (HandleShadowSync cfg now verb body s)) \<in> {Unverified s, bm}"
    using Some x r by (auto simp: HandleShadowSync_def Let_def split: outcome.split)
  then show ?thesis using r by (metis fst_conv insertE singletonD)
qed

lemma unverified_sync:
  "dom (unv_buffer (Unverified (out_state (HandleShadowSync cfg now verb body s)))) \<subseteq> dom (unv_buffer (Unverified s))"
  using unverified_sync_cases [of cfg now verb body s] dom_RetrieveAndRemove [of "Unverified s"] by fastforce

lemma names_sync: "names cfg (out_state (HandleShadowSync cfg now verb body s)) \<subseteq> names cfg s \<union> input_names cfg (ESync now verb body)"
proof -
  let ?t = "out_state (HandleShadowSync cfg now verb body s)"
  have "packetsChan ?t = packetsChan s"
    by (cases "decode_sync (cfg_json cfg) body") (auto simp: HandleShadowSync_def Let_def split: prod.split outcome.split)
  moreover have "dom (Buffer (ShadowBuffer ?t)) \<subseteq> dom (Buffer (ShadowBuffer s)) \<union> input_names cfg (ESync now verb body)"
  proof (cases "\<exists>eventID mission. verb = ''POST'' \<and> decode_sync (cfg_json cfg) body = Some (''ACK'', eventID, mission) \<and> eventID \<noteq> []")
    case True
    then show ?thesis using sync_ACK_state [of cfg body _ _ now s] by (auto simp: shadow_Store_def)
  next
    case False
    then have "ShadowBuffer ?t = ShadowBuffer s"
      by (cases "verb = ''POST''") (use sync_other_state [of cfg body now verb s] in \<open>auto simp: HandleShadowSync_def\<close>)
    then show ?thesis by simp
  qed
  ultimately show ?thesis
    using sync_frame [of cfg now verb body s] unverified_sync [of cfg now verb body s]
    unfolding names_def held_def by auto
qed

lemma names_process:
  "broker_inv s \<Longrightarrow> names cfg (process cfg env raw s) \<subseteq> names cfg s \<union> packet_names cfg raw"
  by (auto simp: names_def held_def broker_inv_def process_def packet_names_def broadcastValidationSync_def
      unverified_Store_def Let_def split: option.splits prod.splits if_splits)

end
