(* ===== verification/Broker_Safety.thy ===== *)
theory Broker_Safety
  imports Broker_Props
begin

text \<open>
  The broker stays up and loses nothing, and what breaks that: events whose names are too short
  for the log.
\<close>

section \<open>Steps that return\<close>

lemma names_pending:
  "broker_inv s \<Longrightarrow> names cfg (out_state (startPendingJanitor_range now order s)) \<subseteq> names cfg s"
proof (induction order arbitrary: s)
  case (Cons e order)
  show ?case
  proof (cases "\<exists>p. pendingMissions s e = Some p \<and> now - CheckoutTime p > 60 * Second")
    case True
    then obtain p where p: "pendingMissions s e = Some p" "now - CheckoutTime p > 60 * Second" by blast
    let ?s = "s\<lparr>pendingMissions := (pendingMissions s)(e := None), Queue := Enqueue (Queue s) (pm_Mission p)\<rparr>"
    have i: "broker_inv ?s"
      using Cons.prems by (simp add: broker_inv_def pending_inv_update pq.invar_enqueue)
    have "event_of (pm_Mission p) = e" using Cons.prems p by (simp add: broker_inv_def pending_inv_def)
    then have "names cfg ?s \<subseteq> names cfg s" using Cons.prems p by (auto simp: names_def held_def broker_inv_def)
    moreover have "out_state (startPendingJanitor_range now (e # order) s) \<in>
        {?s, out_state (startPendingJanitor_range now order ?s)}"
      using p by (cases "loggable e") auto
    ultimately show ?thesis using Cons.IH [OF i] by auto
  next
    case False
    then show ?thesis using Cons by (auto split: option.splits)
  qed
qed simp

lemma pending_returns:
  "(\<forall>e \<in> dom (pendingMissions s). loggable e) \<Longrightarrow> \<exists>s'. startPendingJanitor_range now order s = Returned s' ()"
proof (induction order arbitrary: s)
  case (Cons e order)
  show ?case
  proof (cases "\<exists>p. pendingMissions s e = Some p \<and> now - CheckoutTime p > 60 * Second")
    case True
    then obtain p where p: "pendingMissions s e = Some p" "now - CheckoutTime p > 60 * Second" by blast
    let ?s = "s\<lparr>pendingMissions := (pendingMissions s)(e := None), Queue := Enqueue (Queue s) (pm_Mission p)\<rparr>"
    have "\<forall>e \<in> dom (pendingMissions ?s). loggable e" "loggable e" using Cons.prems p by auto
    from Cons.IH [OF this(1)] this(2) p show ?thesis by simp
  next
    case False
    then show ?thesis using Cons by (auto split: option.splits)
  qed
qed simp

lemma waiting_buffer: "dom (unv_buffer (out_state (startJanitor_range now order bm))) \<subseteq> dom (unv_buffer bm)"
proof (induction order arbitrary: bm)
  case (Cons e order)
  let ?bm = "bm\<lparr>unv_buffer := (unv_buffer bm)(e := None)\<rparr>"
  have d: "dom (unv_buffer ?bm) \<subseteq> dom (unv_buffer bm)" by (auto split: if_splits)
  then have "dom (unv_buffer (out_state (startJanitor_range now order ?bm))) \<subseteq> dom (unv_buffer bm)"
    using Cons [of ?bm] by (rule order_trans [rotated])
  then show ?case
    using Cons [of bm] d by (cases "loggable e") (simp_all split: option.split)
qed simp

text \<open>A broker whose event names the log can show takes every step without a panic.\<close>

lemma rescue_step_returns:
  assumes "broker_inv s" "\<forall>e \<in> dom (Buffer (ShadowBuffer s)). loggable e"
  shows "\<exists>s'. broker_step cfg s (ERescue addrs order) = Returned s' () \<and> names cfg s' \<subseteq> names cfg s"
proof (cases "callbacks s = 0")
  case False
  let ?here = "owned_here (cfg_ring cfg) addrs (Router s)"
  have inv: "shadow_inv (ShadowBuffer s)" "pq_invar (Queue s)" using assms(1) by (auto simp: broker_inv_def)
  then have "\<forall>e m. Buffer (ShadowBuffer s) e = Some m \<longrightarrow> ?here m \<longrightarrow> loggable (event_of m)"
    using assms(2) by (auto simp: shadow_inv_def)
  from rescue_range_Returned [OF this, of order "Queue s"] obtain sb q
    where r: "rescue_range ?here order (ShadowBuffer s, Queue s) = Returned (sb, q) ()"
      "\<forall>e. Buffer sb e = (case Buffer (ShadowBuffer s) e of None \<Rightarrow> None | Some m \<Rightarrow> if e \<in> set order \<and> ?here m then None else Some m)"
    by blast
  have "pq_contents q \<subseteq># map_values (Buffer (ShadowBuffer s)) + pq_contents (Queue s)"
    using rescue_range_conserves [OF inv, of ?here order sb q] r(1) by (metis mset_subset_eq_add_right outcome.sel(1))
  then have "queued q \<subseteq> event_of ` set_mset (map_values (Buffer (ShadowBuffer s))) \<union> queued (Queue s)"
    unfolding queued_def by (metis image_Un image_mono set_mset_mono set_mset_union)
  moreover have "event_of ` set_mset (map_values (Buffer (ShadowBuffer s))) \<subseteq> dom (Buffer (ShadowBuffer s))"
    using inv(1) by (auto simp: map_values_def shadow_inv_def)
  moreover have "dom (Buffer sb) \<subseteq> dom (Buffer (ShadowBuffer s))" using r(2) by (auto split: option.splits)
  ultimately have "queued q \<union> dom (Buffer sb) \<subseteq> queued (Queue s) \<union> dom (Buffer (ShadowBuffer s))" by blast
  then have "names cfg (s\<lparr>callbacks := callbacks s - 1, ShadowBuffer := sb, Queue := q\<rparr>) \<subseteq> names cfg s"
    unfolding names_def held_def by simp blast
  then show ?thesis using r(1) False by (simp add: RescueOrphanedMissions_def)
qed simp

lemma step_returns:
  assumes "broker_inv s" "\<forall>e \<in> names cfg s. loggable e"
  shows "\<exists>s'. broker_step cfg s ev = Returned s' () \<and> broker_inv s' \<and> names cfg s' \<subseteq> names cfg s \<union> input_names cfg ev"
proof -
  have logs: "\<forall>e \<in> dom (pendingMissions s). loggable e" "\<forall>e \<in> dom (Buffer (ShadowBuffer s)). loggable e"
    "\<forall>e \<in> dom (unv_buffer (Unverified s)). loggable e"
    using assms(2) by (auto simp: names_def held_def)
  have "\<exists>s'. broker_step cfg s ev = Returned s' () \<and> names cfg s' \<subseteq> names cfg s \<union> input_names cfg ev"
  proof (cases ev)
    case (EDatagram d)
    then show ?thesis by (cases d) (auto simp: startUDPIngestion_turn_def names_def held_def Let_def)
  next
    case (EWork env)
    have "names cfg (process cfg env raw (s\<lparr>packetsChan := rest\<rparr>)) \<subseteq> names cfg s" if "packetsChan s = raw # rest" for raw rest
    proof (rule order_trans [OF names_process])
      show "broker_inv (s\<lparr>packetsChan := rest\<rparr>)" using assms(1) by (simp add: broker_inv_def)
      show "names cfg (s\<lparr>packetsChan := rest\<rparr>) \<union> packet_names cfg raw \<subseteq> names cfg s"
        using that by (auto simp: names_def held_def)
    qed
    then show ?thesis using EWork by (cases "packetsChan s") (auto simp: worker_turn_def)
  next
    case (EPop now verb)
    then show ?thesis using names_pop [OF assms(1)] by (auto simp: recovered_out_state)
  next
    case (EResolve verb body)
    then show ?thesis using names_resolve [OF assms(1)] by (auto simp: recovered_out_state)
  next
    case (ESync now verb body)
    then show ?thesis using names_sync [of cfg now verb body s] by (simp add: recovered_out_state)
  next
    case (EPending now order)
    obtain s' where s': "startPendingJanitor_range now order s = Returned s' ()" using pending_returns [OF logs(1)] by blast
    then show ?thesis using names_pending [OF assms(1), of cfg now order] EPending by auto
  next
    case EAging
    then show ?thesis using queued_aging [of "Queue s"] assms(1) by (auto simp: names_def held_def broker_inv_def)
  next
    case (EWaiting now order)
    obtain bm where bm: "startJanitor_range now order (Unverified s) = Returned bm ()"
      using startJanitor_returns [of "Unverified s" now order] logs(3) by blast
    then show ?thesis using waiting_buffer [of now order "Unverified s"] EWaiting by (auto simp: names_def held_def)
  next
    case (EForget now order)
    then show ?thesis by (auto simp: names_def held_def)
  next
    case (ETopology ips)
    then show ?thesis by (auto simp: names_def held_def split: prod.split)
  next
    case (ERescue addrs order)
    then show ?thesis using rescue_step_returns [OF assms(1) logs(2), of cfg addrs order] by auto
  qed
  then obtain s' where s': "broker_step cfg s ev = Returned s' ()" "names cfg s' \<subseteq> names cfg s \<union> input_names cfg ev" by blast
  then have "broker_inv s'" using keeps_step [of cfg ev s] assms(1) by (simp add: keeps_def)
  with s' show ?thesis by blast
qed

lemma run_returns:
  assumes "broker_inv s" "\<forall>e \<in> names cfg s. loggable e" "\<forall>ev \<in> set evs. \<forall>e \<in> input_names cfg ev. loggable e"
  shows "\<exists>s'. broker_run cfg s evs = Returned s' () \<and> broker_inv s'"
  using assms
proof (induction evs arbitrary: s)
  case (Cons ev evs)
  obtain t where t: "broker_step cfg s ev = Returned t ()" "broker_inv t" "names cfg t \<subseteq> names cfg s \<union> input_names cfg ev"
    using step_returns [OF Cons.prems(1,2)] by blast
  have "\<forall>e \<in> names cfg t. loggable e" using t(3) Cons.prems(2,3) by fastforce
  from Cons.IH [OF t(2) this] Cons.prems(3) t(1) show ?case by simp
qed simp

lemma names_New: "names cfg (NewBroker cfg) = {}"
  by (simp add: names_def held_def queued_def NewBroker_def NewShadowBufferManager_def NewUnverifiedBufferManager_def)

end
