(* ===== verification/Broker_Flow.thy ===== *)
theory Broker_Flow
  imports Broker_Safety
begin

text \<open>
  From a packet to a queued mission, and from one broker to another: what \<open>process\<close> decides, that the
  broker loses no event it has accepted, how gossip and rescue carry a mission over to the broker that
  inherits its sector, and where this goes wrong.
\<close>

section \<open>What a packet leads to\<close>

text \<open>The mission \<open>process\<close> makes of a packet.\<close>

definition mission_of :: "process_env \<Rightarrow> SensorData \<Rightarrow> 'r broker \<Rightarrow> Mission" where
  "mission_of env data s =
     zero_Mission\<lparr>Payload := data, LamportClock := snd (stamp env data (globalLamportClock s))\<rparr>"

lemma event_of_mission_of [simp]: "event_of (mission_of env data s) = EventID data" "Payload (mission_of env data s) = data"
  by (simp_all add: mission_of_def)

text \<open>The packets a broker acts on: requests with a sensor and a sector, of an event the filter does not know.\<close>

definition accepts :: "SensorData \<Rightarrow> 'r broker \<Rightarrow> bool" where
  "accepts data s \<longleftrightarrow>
     IsRequisition data \<and> SensorID data \<noteq> [] \<and> 0 < SectorID data \<and> seen (Filter s) (EventID data) = None"

definition elsewhere :: "('r, 'sk) broker_cfg \<Rightarrow> process_env \<Rightarrow> SensorData \<Rightarrow> 'r broker \<Rightarrow> bool" where
  "elsewhere cfg env data s \<longleftrightarrow>
     (let ip = GetOwnerIP (cfg_ring cfg) (Router s) (SectorID data) in ip \<noteq> [] \<and> \<not> isLocalIP (env_addrs env) ip)"

abbreviation pays :: "('r, 'sk) broker_cfg \<Rightarrow> process_env \<Rightarrow> SensorData \<Rightarrow> bool" where
  "pays cfg env data \<equiv> SpendCredit (cfg_crypto cfg) (cfg_rpc cfg) (env_net env) (cfg_ledger cfg) data"

definition sync_posts :: "('r, 'sk) broker_cfg \<Rightarrow> process_env \<Rightarrow> string \<Rightarrow> Mission \<Rightarrow> 'r broker \<Rightarrow> message list" where
  "sync_posts cfg env action m s =
     map (\<lambda>ip. HTTPPost (''http://'' @ ip @ '':8080/internal/shadow/sync'') (marshal_sync (cfg_json cfg) action (event_of m) m))
       (filter (\<lambda>ip. ip \<noteq> getLocalIP (env_addrs env)) (GetAllMembers (cfg_ring cfg) (Router s)))"

lemma process_ignores:
  assumes "unmarshal_data (cfg_json cfg) raw = Some data" "\<not> accepts data s"
  shows "process cfg env raw s = s"
proof (cases "IsRequisition data \<and> SensorID data \<noteq> [] \<and> 0 < SectorID data")
  case True
  then obtain x where "seen (Filter s) (EventID data) = Some x" using assms(2) by (auto simp: accepts_def)
  then show ?thesis using True assms(1) by (simp add: process_def CheckAndAdd_simps Let_def)
qed (use assms in \<open>auto simp: process_def\<close>)

lemma process_forwards:
  assumes "unmarshal_data (cfg_json cfg) raw = Some data" "accepts data s" "elsewhere cfg env data s"
  shows "process cfg env raw s =
    s\<lparr>Filter := (Filter s)\<lparr>seen := (seen (Filter s))(EventID data \<mapsto> env_now env + ttl (Filter s))\<rparr>,
      globalLamportClock := fst (stamp env data (globalLamportClock s)),
      Unverified := unverified_Store (env_now' env) (Unverified s) (mission_of env data s),
      outbox := outbox s @ forwardPacket (env_udp env) (GetOwnerIP (cfg_ring cfg) (Router s) (SectorID data))
        (marshal_data (cfg_json cfg) (data\<lparr>InternalClock := LamportClock (mission_of env data s)\<rparr>))\<rparr>"
  using assms
  by (simp add: process_def accepts_def elsewhere_def CheckAndAdd_simps mission_of_def Let_def split: prod.split)

lemma process_owns:
  assumes "unmarshal_data (cfg_json cfg) raw = Some data" "accepts data s" "\<not> elsewhere cfg env data s"
  shows "process cfg env raw s =
    s\<lparr>Filter := (Filter s)\<lparr>seen := (seen (Filter s))(EventID data \<mapsto> env_now env + ttl (Filter s))\<rparr>,
      globalLamportClock := fst (stamp env data (globalLamportClock s)),
      Queue := (if pays cfg env data then Enqueue (Queue s) (mission_of env data s) else Queue s),
      outbox := outbox s @ sync_posts cfg env (if pays cfg env data then ''ACK'' else ''NACK'') (mission_of env data s) s\<rparr>"
  using assms
  by (auto simp: process_def accepts_def elsewhere_def CheckAndAdd_simps mission_of_def broadcastValidationSync_def
      sync_posts_def GetAllMembers_def Let_def split: prod.split)

section \<open>The shadow buffer between rescues\<close>

fun is_rescue :: "broker_event \<Rightarrow> bool" where
  "is_rescue (ERescue addrs order) = True"
| "is_rescue _ = False"

lemma shadow_pending: "ShadowBuffer (out_state (startPendingJanitor_range now order s)) = ShadowBuffer s"
proof (induction order arbitrary: s)
  case (Cons e order)
  then show ?case by (cases "loggable e") (simp_all split: option.split)
qed simp

lemma shadow_process: "ShadowBuffer (process cfg env raw s) = ShadowBuffer s"
  by (auto simp: process_def broadcastValidationSync_def Let_def split: option.split prod.split)

lemma shadow_step:
  assumes "\<not> is_rescue ev"
  shows "dom (Buffer (ShadowBuffer s)) \<subseteq> dom (Buffer (ShadowBuffer (out_state (broker_step cfg s ev))))"
proof (cases ev)
  case (EDatagram d)
  then show ?thesis by (cases d) (auto simp: startUDPIngestion_turn_def Let_def)
next
  case (EWork env)
  then show ?thesis by (cases "packetsChan s") (auto simp: worker_turn_def shadow_process)
next
  case (EPop now verb)
  then show ?thesis
    by (auto simp: recovered_out_state HandleQueuePop_def Let_def split: prod.split)
next
  case (EResolve verb body)
  then show ?thesis
    by (auto simp: recovered_out_state HandleQueueResolve_def Let_def split: option.split)
next
  case (ESync now verb body)
  then show ?thesis
    using sync_shadow [of cfg now verb body s] by (auto simp: recovered_out_state shadow_Store_def)
next
  case (EWaiting now order)
  then show ?thesis by (cases "startJanitor_range now order (Unverified s)") auto
next
  case (ETopology ips)
  then show ?thesis by (auto split: prod.split)
qed (use assms in \<open>auto simp: shadow_pending\<close>)

lemma shadow_run:
  "broker_run cfg s evs = Returned s' u \<Longrightarrow> \<forall>ev \<in> set evs. \<not> is_rescue ev \<Longrightarrow>
   dom (Buffer (ShadowBuffer s)) \<subseteq> dom (Buffer (ShadowBuffer s'))"
proof (induction evs arbitrary: s)
  case (Cons ev evs)
  then obtain t where t: "broker_step cfg s ev = Returned t ()" "broker_run cfg t evs = Returned s' u"
    by (auto simp: bind_outcome_Returned)
  have "dom (Buffer (ShadowBuffer s)) \<subseteq> dom (Buffer (ShadowBuffer t))"
    using shadow_step [of ev s cfg] t(1) Cons.prems(2) by simp
  also have "\<dots> \<subseteq> dom (Buffer (ShadowBuffer s'))" using Cons.IH [OF t(2)] Cons.prems(2) by simp
  finally show ?case .
qed simp

lemma broker_run_append:
  "broker_run cfg s (evs @ evs') = bind_outcome (broker_run cfg s evs) (\<lambda>s _. broker_run cfg s evs')"
proof (induction evs arbitrary: s)
  case (Cons ev evs)
  then show ?case by (cases "broker_step cfg s ev") auto
qed simp

text \<open>A rescue queues each mission it visits and owns, even if a later one makes it panic.\<close>

lemma rescue_takes:
  assumes "shadow_inv sb" "pq_invar q" "Buffer sb e = Some m" "here m" "e \<in> set order"
    and "\<forall>e \<in> dom (Buffer sb). loggable e"
  shows "m \<in># pq_contents (snd (out_state (rescue_range here order (sb, q))))"
proof -
  have "\<forall>e m. Buffer sb e = Some m \<longrightarrow> here m \<longrightarrow> loggable (event_of m)"
    using assms(1,6) by (auto simp: shadow_inv_def)
  from rescue_range_Returned [OF this, of order q] obtain sb' q'
    where r: "rescue_range here order (sb, q) = Returned (sb', q') ()"
      "\<forall>e. Buffer sb' e = (case Buffer sb e of None \<Rightarrow> None | Some m \<Rightarrow> if e \<in> set order \<and> here m then None else Some m)"
    by blast
  have c: "shadow_inv sb'" "map_values (Buffer sb') + pq_contents q' = map_values (Buffer sb) + pq_contents q"
    using rescue_range_conserves [OF assms(1,2), of here order sb' q'] r(1) by auto
  have "m \<in># map_values (Buffer sb)"
    using map_values_delete [where m = "Buffer sb", OF _ assms(3)] assms(1) by (simp add: shadow_inv_def)
  then have "m \<in># map_values (Buffer sb') + pq_contents q'" using c(2) by simp
  moreover have "m \<notin># map_values (Buffer sb')"
  proof
    assume "m \<in># map_values (Buffer sb')"
    then obtain k where k: "Buffer sb' k = Some m" using c(1) by (auto simp: map_values_def shadow_inv_def)
    then have "k = event_of m" using c(1) by (simp add: shadow_inv_def)
    also have "\<dots> = e" using assms(1,3) by (simp add: shadow_inv_def)
    finally show False using k r(2) assms(3-5) by simp
  qed
  ultimately show ?thesis using r(1) by simp
qed

section \<open>Properties\<close>

text \<open>C8. What a broker does with a packet is decided by four questions. A packet that is no proper request, or
  whose event the filter has seen, changes nothing. Otherwise the broker stamps a mission. If
  another broker owns the sector, the mission waits for ten seconds, the owner gets the stamped packet
  when the network lets it through, and queue and ledger are left alone. If this broker owns the
  sector, the mission is queued exactly when the ledger approves, and every other broker is told.\<close>

theorem process_decides:
  assumes "unmarshal_data (cfg_json cfg) raw = Some data" "pq_invar (Queue s)"
  shows "(\<not> accepts data s \<longrightarrow> process cfg env raw s = s) \<and>
    (accepts data s \<longrightarrow> seen (Filter (process cfg env raw s)) (EventID data) \<noteq> None) \<and>
    (accepts data s \<and> elsewhere cfg env data s \<longrightarrow>
       Queue (process cfg env raw s) = Queue s \<and>
       unv_buffer (Unverified (process cfg env raw s)) (EventID data) =
         Some \<lparr>unv_Mission = mission_of env data s, unv_ExpiresAt = env_now' env + 10 * Second\<rparr> \<and>
       (env_udp env = Sent \<longrightarrow> outbox (process cfg env raw s) = outbox s @
          [Datagram (GetOwnerIP (cfg_ring cfg) (Router s) (SectorID data) @ '':9000'')
             (marshal_data (cfg_json cfg) (data\<lparr>InternalClock := LamportClock (mission_of env data s)\<rparr>))])) \<and>
    (accepts data s \<and> \<not> elsewhere cfg env data s \<longrightarrow>
       pq_contents (Queue (process cfg env raw s)) =
         pq_contents (Queue s) + (if pays cfg env data then {#mission_of env data s#} else {#}) \<and>
       outbox (process cfg env raw s) = outbox s @
         sync_posts cfg env (if pays cfg env data then ''ACK'' else ''NACK'') (mission_of env data s) s)"
  using process_ignores [OF assms(1)] process_forwards [OF assms(1)] process_owns [OF assms(1)] assms(2)
  by (cases "elsewhere cfg env data s")
    (simp_all add: unverified_Store_def forwardPacket_def pq.contents_enqueue)

text \<open>A broker for closed examples.\<close>

definition example_broker_json :: broker_json where
  "example_broker_json =
     \<lparr>unmarshal_data = map_of [(''p1'', example_data ''event-0001''), (''p2'', example_data ''e1'')],
      marshal_data = EventID,
      marshal_sync = (\<lambda>action e m. if action = ''ACK'' \<and> e = ''event-0001'' \<and> LamportClock m = 1 then ''a1'' else ''a0''),
      decode_sync = map_of [(''a1'', (''ACK'', ''event-0001'', zero_Mission\<lparr>Payload := example_data ''event-0001'', LamportClock := 1\<rparr>))],
      decode_resolve = map_of [(''done1'', (''SUCCESS'', zero_Mission\<lparr>Payload := example_data ''event-0001''\<rparr>))],
      marshal_mission = event_of, decode_object = (\<lambda>_. None), marshal_received = [], marshal_health = (\<lambda>t i. t),
      show_query_error = (\<lambda>_. [])\<rparr>"

definition example_cfg :: "(string list, bytes) broker_cfg" where
  "example_cfg =
     \<lparr>cfg_ring = example_ring, cfg_crypto = example_ed25519, cfg_rpc = example_json, cfg_json = example_broker_json,
      cfg_ledger = NewLedgerClient ''http://node''\<rparr>"

definition example_env :: process_env where
  "example_env = \<lparr>env_now = 0, env_now' = 0, env_cas = [], env_addrs = example_addrs, env_udp = Sent, env_net = example_net\<rparr>"

lemma example_pays: "pays example_cfg example_env (example_data e)"
  by (simp add: SpendCredit_def broadcast_tx_def PostJSON_def NewLedgerClient_def NewHTTPClient_def Let_def
      example_cfg_def example_env_def example_net_def example_json_def request_loop.simps(2) read_answer_def
      post_retryable_def eval_nat_numeral)

lemma New_owner: "consistent_ok C \<Longrightarrow> GetOwnerIP C (NewSectorRouter C n target) sector = []"
  unfolding GetOwnerIP_def NewSectorRouter_def consistent_ok_def Let_def
  by (metis SectorRouter.select_convs(1) empty_iff empty_set not_None_eq option.simps(4))

lemma New_accepts:
  "IsRequisition data \<Longrightarrow> SensorID data \<noteq> [] \<Longrightarrow> 0 < SectorID data \<Longrightarrow> accepts data (NewBroker cfg)"
  by (simp add: accepts_def NewBroker_def NewIdempotencyFilter_def)

lemma example_accepts: "accepts (example_data e) (NewBroker example_cfg)"
  by (rule New_accepts) (simp_all add: example_data_def)

lemma New_not_elsewhere: "consistent_ok (cfg_ring cfg) \<Longrightarrow> \<not> elsewhere cfg env data (NewBroker cfg)"
  by (simp add: elsewhere_def NewBroker_def New_owner)

lemma example_unmarshal_data: "unmarshal_data (cfg_json example_cfg) ''p1'' = Some (example_data ''event-0001'')"
  "unmarshal_data (cfg_json example_cfg) ''p2'' = Some (example_data ''e1'')"
  by (simp_all add: example_cfg_def example_broker_json_def)

lemma example_cfg_ring: "consistent_ok (cfg_ring example_cfg)"
  using example_ring_ok by (simp add: example_cfg_def)

theorem process_decides_witness:
  "pq_contents (Queue (process example_cfg example_env ''p1'' (NewBroker example_cfg))) =
     {#mission_of example_env (example_data ''event-0001'') (NewBroker example_cfg)#}"
proof -
  have "pq_invar (Queue (NewBroker example_cfg))" "pq_contents (Queue (NewBroker example_cfg)) = {#}"
    by (simp_all add: NewBroker_def)
  with process_decides [where raw = "''p1''", OF example_unmarshal_data(1), of "NewBroker example_cfg" example_env]
  show ?thesis using example_accepts example_pays New_not_elsewhere [OF example_cfg_ring] by simp
qed

text \<open>C3. A broker loses no event: whatever sequence of packets, requests, gossip, topology changes and background
  passes has led to a state in which it holds an event, queued or checked out, and whatever follows, it
  still holds the event unless a station reports on it with something other than a requeue.\<close>

theorem no_event_lost:
  assumes "broker_run cfg (NewBroker cfg) evs = Returned s u" "broker_run cfg s evs' = Returned s' u'"
    and "e \<in> held s" "\<forall>ev \<in> set evs'. e \<notin> settles cfg ev"
  shows "e \<in> held s'"
proof -
  have "broker_inv s" using keeps_run [OF assms(1)] by (simp add: keeps_def)
  then show ?thesis using keeps_run [OF assms(2)] assms(3,4) by (auto simp: keeps_def)
qed

lemma example_first_run:
  "broker_run example_cfg (NewBroker example_cfg) [EDatagram (Some ''p1''), EWork example_env] =
     Returned (process example_cfg example_env ''p1'' (NewBroker example_cfg)) ()"
proof -
  have "(NewBroker example_cfg)\<lparr>packetsChan := []\<rparr> = NewBroker example_cfg" by (simp add: NewBroker_def)
  then show ?thesis by (simp add: startUDPIngestion_turn_def worker_turn_def NewBroker_def)
qed

lemma example_queue:
  "Queue (process example_cfg example_env ''p1'' (NewBroker example_cfg)) =
     Enqueue (New 100) (mission_of example_env (example_data ''event-0001'') (NewBroker example_cfg))"
  using process_owns [where raw = "''p1''", OF example_unmarshal_data(1) example_accepts New_not_elsewhere [OF example_cfg_ring]]
    example_pays by (simp add: NewBroker_def)

theorem no_event_lost_witness:
  "\<exists>s'. broker_run example_cfg (process example_cfg example_env ''p1'' (NewBroker example_cfg)) [EPop 5 ''GET'', EAging] = Returned s' () \<and>
     ''event-0001'' \<in> held s'"
proof -
  let ?s = "process example_cfg example_env ''p1'' (NewBroker example_cfg)"
  have "EventID (example_data ''event-0001'') = ''event-0001''" by (simp add: example_data_def)
  then have h: "''event-0001'' \<in> held ?s" by (simp add: held_def example_queue)
  obtain s' where s': "broker_run example_cfg ?s [EPop 5 ''GET'', EAging] = Returned s' ()"
    by (simp add: recovered_out_state)
  from no_event_lost [OF example_first_run this h] s' show ?thesis by simp
qed

text \<open>C30. A broker stays up: from its start, no sequence of inputs and background passes makes a goroutine
  panic, as long as the events named in packets and in gossip have at least eight characters.\<close>

theorem broker_survives:
  assumes "\<forall>ev \<in> set evs. \<forall>e \<in> input_names cfg ev. loggable e"
  shows "\<exists>s. broker_run cfg (NewBroker cfg) evs = Returned s ()"
  using run_returns [OF broker_inv_New _ assms] names_New [of cfg] by auto

theorem broker_survives_witness:
  "\<exists>s. broker_run example_cfg (NewBroker example_cfg)
     [EDatagram (Some ''p1''), EWork example_env, EPop 5 ''GET'', EPending (100 * Second) [''event-0001'']] = Returned s ()"
  by (rule broker_survives)
    (simp add: packet_names_def example_unmarshal_data example_data_def loggable_def)

text \<open>C40. One packet can take a broker down: a request the ledger approves whose event has fewer than eight
  characters is queued; checking it out panics in the handler, so no station ever gets it, and the
  janitor that finds it a minute later panics outside any handler and ends the process.\<close>

theorem short_event_crashes_broker:
  assumes "consistent_ok (cfg_ring cfg)" "unmarshal_data (cfg_json cfg) (take 1024 raw) = Some data"
    and "IsRequisition data" "SensorID data \<noteq> []" "0 < SectorID data" "\<not> loggable (EventID data)"
    and "pays cfg env data" "t' - t > 60 * Second"
  shows "\<exists>s. broker_run cfg (NewBroker cfg)
    [EDatagram (Some raw), EWork env, EPop t ''GET'', EPending t' [EventID data]] = Panicked s SliceOutOfRange"
proof -
  let ?s0 = "NewBroker cfg" and ?m = "mission_of env data (NewBroker cfg)"
  let ?s1 = "process cfg env (take 1024 raw) ?s0"
  have "?s0\<lparr>packetsChan := []\<rparr> = ?s0" by (simp add: NewBroker_def)
  then have 1: "broker_run cfg ?s0 [EDatagram (Some raw), EWork env] = Returned ?s1 ()"
    by (simp add: startUDPIngestion_turn_def worker_turn_def NewBroker_def)
  have q: "Queue ?s1 = Enqueue (New 100) ?m"
    using process_owns [where raw = "take 1024 raw", OF assms(2) New_accepts [OF assms(3-5)] New_not_elsewhere [OF assms(1)], of env] assms(7)
    by (simp add: NewBroker_def)
  have "pq_invar (Queue ?s1)" "pq_contents (Queue ?s1) = {#?m#}"
    using q by (simp_all add: pq.invar_enqueue pq.contents_enqueue)
  moreover obtain q' m where d: "Dequeue (Queue ?s1) = (q', m, True)"
    using pq.dequeue_nonempty calculation by fastforce
  ultimately have m: "m = ?m" using pq.dequeue_some [of "Queue ?s1" q' m] by simp
  let ?s2 = "?s1\<lparr>Queue := q', pendingMissions := (pendingMissions ?s1)(EventID data \<mapsto> \<lparr>pm_Mission = ?m, CheckoutTime = t\<rparr>)\<rparr>"
  have 2: "broker_step cfg ?s1 (EPop t ''GET'') = Returned ?s2 ()"
    using d m by (simp add: recovered_out_state HandleQueuePop_def Let_def)
  obtain s where 3: "broker_step cfg ?s2 (EPending t' [EventID data]) = Panicked s SliceOutOfRange"
    using assms(6,8) by simp
  have "broker_run cfg ?s0 ([EDatagram (Some raw), EWork env] @ [EPop t ''GET'', EPending t' [EventID data]]) = Panicked s SliceOutOfRange"
    unfolding broker_run_append 1 by (simp add: 2 3 del: broker_step.simps)
  then show ?thesis by auto
qed

theorem short_event_crashes_broker_witness:
  "\<exists>s. broker_run example_cfg (NewBroker example_cfg)
     [EDatagram (Some ''p2''), EWork example_env, EPop 0 ''GET'', EPending (61 * Second) [EventID (example_data ''e1'')]] = Panicked s SliceOutOfRange"
  by (rule short_event_crashes_broker [OF example_cfg_ring])
    (use example_unmarshal_data(2) example_pays in \<open>simp_all add: example_data_def loggable_def\<close>)

text \<open>A mission survives the broker that owns it. When an owner queues a mission, it posts it to every other
  member of the ring; a broker that takes this message in and later inherits the sector puts
  that very mission, with its Lamport time, into its own queue at the next rescue.\<close>

lemma failover_preserves_mission:
  assumes "unmarshal_data (cfg_json cfg) raw = Some data" "accepts data s" "\<not> elsewhere cfg env data s" "pays cfg env data"
    and "ip \<in> set (GetAllMembers (cfg_ring cfg) (Router s))" "ip \<noteq> getLocalIP (env_addrs env)"
    and "body = marshal_sync (cfg_json cfg) ''ACK'' (EventID data) (mission_of env data s)"
    and "decode_sync (cfg_json cfg) body = Some (''ACK'', EventID data, mission_of env data s)"
    and "broker_inv t" "\<forall>e \<in> names cfg t. loggable e" "loggable (EventID data)"
    and "owned_here (cfg_ring cfg) addrs router (mission_of env data s)" "EventID data \<in> set order"
  shows "HTTPPost (''http://'' @ ip @ '':8080/internal/shadow/sync'') body \<in> set (outbox (process cfg env raw s)) \<and>
    mission_of env data s \<in># pq_contents (snd (out_state (RescueOrphanedMissions (cfg_ring cfg) addrs router order
      (ShadowBuffer (out_state (HandleShadowSync cfg now ''POST'' body t))) (Queue t))))"
proof -
  let ?m = "mission_of env data s" and ?t = "out_state (HandleShadowSync cfg now ''POST'' body t)"
  have "HTTPPost (''http://'' @ ip @ '':8080/internal/shadow/sync'') body \<in> set (outbox (process cfg env raw s))"
    using process_owns [OF assms(1-3)] assms(4-7) by (simp add: sync_posts_def)
  moreover have "EventID data \<noteq> []" using assms(11) by (auto simp: loggable_def)
  then have t: "ShadowBuffer ?t = out_state (shadow_Store (ShadowBuffer t) ?m)"
    using sync_ACK_state [OF assms(8)] by simp
  then have b: "Buffer (ShadowBuffer ?t) = (Buffer (ShadowBuffer t))(EventID data \<mapsto> ?m)" by (simp add: shadow_Store_def)
  have "?m \<in># pq_contents (snd (out_state (rescue_range (owned_here (cfg_ring cfg) addrs router) order (ShadowBuffer ?t, Queue t))))"
  proof (rule rescue_takes)
    show "shadow_inv (ShadowBuffer ?t)" "pq_invar (Queue t)"
      using t shadow_inv_Store assms(9) by (simp_all add: broker_inv_def)
    show "Buffer (ShadowBuffer ?t) (EventID data) = Some ?m" using b by simp
    show "\<forall>e \<in> dom (Buffer (ShadowBuffer ?t)). loggable e" using b assms(10,11) by (auto simp: names_def)
  qed (use assms(12,13) in auto)
  ultimately show ?thesis by (simp add: RescueOrphanedMissions_def)
qed

definition example_primary :: "string list broker" where
  "example_primary = (NewBroker example_cfg)\<lparr>Router := example_router [''10.0.0.1'', ''10.0.0.2'']\<rparr>"

definition other_addrs :: "ifaddr list option" where
  "other_addrs = Some [IPNet ''10.0.0.2'' False True]"

lemma example_primary_members:
  "GetAllMembers example_ring (example_router [''10.0.0.1'', ''10.0.0.2'']) = [''10.0.0.1'', ''10.0.0.2'']"
  "GetOwnerIP example_ring (example_router [''10.0.0.1'', ''10.0.0.2'']) n = ''10.0.0.1''"
proof -
  have "Join [''10.0.0.1'', ''10.0.0.2''] CHR '','' \<noteq> []" by simp
  moreover have "sort [''10.0.0.1'', ''10.0.0.2''] = [''10.0.0.1'', ''10.0.0.2'']" by simp
  ultimately have "ring (example_router [''10.0.0.1'', ''10.0.0.2'']) = [''10.0.0.1'', ''10.0.0.2'']"
    by (simp add: example_router_def WatchTopology_pass_def NewSectorRouter_def example_ring_def Let_def)
  then show "GetAllMembers example_ring (example_router [''10.0.0.1'', ''10.0.0.2'']) = [''10.0.0.1'', ''10.0.0.2'']"
    "GetOwnerIP example_ring (example_router [''10.0.0.1'', ''10.0.0.2'']) n = ''10.0.0.1''"
    by (simp_all add: GetAllMembers_def GetOwnerIP_def example_ring_def Let_def)
qed

text \<open>C39. A finished mission can be flown again: nothing but a rescue ever takes a mission out of a shadow
  buffer. Once a broker has the copy of another broker's mission, it keeps one for that event
  through any packets, station reports, gossip, topology changes and passes of its janitors, and when it
  inherits the sector it queues the mission, although the owner may have completed it long before.\<close>

theorem finished_mission_redispatched:
  assumes "broker_run cfg (NewBroker cfg) evs = Returned s u" "e \<in> dom (Buffer (ShadowBuffer s))"
    and "broker_run cfg s evs' = Returned s' u'" "\<forall>ev \<in> set evs'. \<not> is_rescue ev"
    and "\<forall>e \<in> dom (Buffer (ShadowBuffer s')). loggable e" "e \<in> set order"
  shows "\<exists>m. Buffer (ShadowBuffer s') e = Some m \<and> event_of m = e \<and>
    (owned_here (cfg_ring cfg) addrs router m \<longrightarrow>
     m \<in># pq_contents (snd (out_state (RescueOrphanedMissions (cfg_ring cfg) addrs router order (ShadowBuffer s') (Queue s')))))"
proof -
  have "broker_inv s" using keeps_run [OF assms(1)] by (simp add: keeps_def)
  then have inv: "shadow_inv (ShadowBuffer s')" "pq_invar (Queue s')"
    using keeps_run [OF assms(3)] by (simp_all add: keeps_def broker_inv_def)
  obtain m where m: "Buffer (ShadowBuffer s') e = Some m" using shadow_run [OF assms(3,4)] assms(2) by blast
  then have "event_of m = e" using inv(1) by (simp add: shadow_inv_def)
  then show ?thesis
    using m rescue_takes [where sb = "ShadowBuffer s'", OF inv m _ assms(6,5)] by (auto simp: RescueOrphanedMissions_def)
qed

theorem finished_mission_redispatched_witness:
  "\<exists>s s' m. broker_run example_cfg (NewBroker example_cfg) [ESync 0 ''POST'' ''a1''] = Returned s () \<and>
     broker_run example_cfg s [EResolve ''POST'' ''done1'', EWaiting 100 []] = Returned s' () \<and>
     m \<in># pq_contents (snd (out_state (RescueOrphanedMissions (cfg_ring example_cfg) other_addrs (example_router [''10.0.0.2''])
        [''event-0001''] (ShadowBuffer s') (Queue s'))))"
proof -
  let ?m = "zero_Mission\<lparr>Payload := example_data ''event-0001'', LamportClock := 1\<rparr>"
  let ?s = "out_state (HandleShadowSync example_cfg 0 ''POST'' ''a1'' (NewBroker example_cfg))"
  have e: "event_of ?m = ''event-0001''" by (simp add: example_data_def)
  have "decode_sync (cfg_json example_cfg) ''a1'' = Some (''ACK'', ''event-0001'', ?m)"
    by (simp add: example_cfg_def example_broker_json_def)
  from sync_ACK_state [OF this, of 0 "NewBroker example_cfg"]
  have b: "Buffer (ShadowBuffer ?s) = [''event-0001'' \<mapsto> ?m]" and p: "pendingMissions ?s = Map.empty"
    using e by (simp_all add: shadow_Store_def NewBroker_def NewShadowBufferManager_def)
  have 1: "broker_run example_cfg (NewBroker example_cfg) [ESync 0 ''POST'' ''a1''] = Returned ?s ()"
    by (simp add: recovered_out_state)
  have "decode_resolve (cfg_json example_cfg) ''done1'' = Some (''SUCCESS'', zero_Mission\<lparr>Payload := example_data ''event-0001''\<rparr>)"
    by (simp add: example_cfg_def example_broker_json_def)
  then have 2: "broker_run example_cfg ?s [EResolve ''POST'' ''done1'', EWaiting 100 []] = Returned ?s ()"
    using p by (simp add: recovered_out_state HandleQueueResolve_def)
  have "owned_here (cfg_ring example_cfg) other_addrs (example_router [''10.0.0.2'']) ?m"
    by (simp add: owned_here_def example_cfg_def example_owner isLocalIP_def getLocalIP_def other_addrs_def)
  moreover have "''event-0001'' \<in> dom (Buffer (ShadowBuffer ?s))" "\<forall>e \<in> dom (Buffer (ShadowBuffer ?s)). loggable e"
    "''event-0001'' \<in> set [''event-0001'']"
    using b by (simp_all add: loggable_def)
  ultimately show ?thesis
    using finished_mission_redispatched [OF 1 _ 2, of "''event-0001''" "[''event-0001'']" other_addrs "example_router [''10.0.0.2'']"] 1 2 b
    by fastforce
qed

end
