(* ===== verification/Radar.thy ===== *)
theory Radar
  imports Mission_Queue
begin

text \<open>
  The in-flight manager of \<open>src/pkg/radar/flight.go\<close> and \<open>src/pkg/radar/radar.go\<close>: the missions that have
  left the queue, each under a lease, and the queue they return to. Every reading of the clock
  is an argument. \<open>sweep\<close> is one pass of the janitor; the order in which it visits the records is
  an argument too. The lemmas follow every mission: it is in flight, in the queue,
  acknowledged, or replaced by a later mark of the same event, exactly once.
\<close>

section \<open>State\<close>

record InFlightRecord =
  ifr_Mission :: Mission
  ExpiresAt :: instant

record InFlightManager =
  records :: "string \<rightharpoonup> InFlightRecord"
  rq :: PriorityQueue

definition NewInFlightManager :: "PriorityQueue \<Rightarrow> InFlightManager" where
  "NewInFlightManager pq = \<lparr>records = Map.empty, rq = pq\<rparr>"

section \<open>Operations\<close>

definition MarkInFlight :: "instant \<Rightarrow> InFlightManager \<Rightarrow> Mission \<Rightarrow> duration \<Rightarrow> InFlightManager" where
  "MarkInFlight now m mission dur =
     m\<lparr>records := (records m)(event_of mission \<mapsto> \<lparr>ifr_Mission = mission, ExpiresAt = now + dur\<rparr>)\<rparr>"

text \<open>The clock is read twice: for the check, and for the new expiry.\<close>

definition RenewLease :: "instant \<Rightarrow> instant \<Rightarrow> InFlightManager \<Rightarrow> string \<Rightarrow> duration \<Rightarrow> InFlightManager \<times> bool" where
  "RenewLease now now' m eventID dur =
     (case records m eventID of
        None \<Rightarrow> (m, False)
      | Some record \<Rightarrow>
          if now > ExpiresAt record then (m, False)
          else (m\<lparr>records := (records m)(eventID \<mapsto> record\<lparr>ExpiresAt := now' + dur\<rparr>)\<rparr>, True))"

definition Acknowledge :: "InFlightManager \<Rightarrow> string \<Rightarrow> InFlightManager \<times> bool" where
  "Acknowledge m eventID =
     (case records m eventID of
        None \<Rightarrow> (m, False)
      | Some _ \<Rightarrow> (m\<lparr>records := (records m)(eventID := None)\<rparr>, True))"

definition Nack :: "InFlightManager \<Rightarrow> string \<Rightarrow> InFlightManager \<times> bool" where
  "Nack m eventID =
     (case records m eventID of
        None \<Rightarrow> (m, False)
      | Some record \<Rightarrow>
          (m\<lparr>records := (records m)(eventID := None), rq := Enqueue (rq m) (ifr_Mission record)\<rparr>, True))"

text \<open>The first loop of \<open>sweep\<close>, under the lock: expired records are collected and deleted.\<close>

fun collect_expired :: "instant \<Rightarrow> string list \<Rightarrow> (string \<rightharpoonup> InFlightRecord) \<Rightarrow> Mission list \<Rightarrow> (string \<rightharpoonup> InFlightRecord) \<times> Mission list" where
  "collect_expired now [] recs expired = (recs, expired)"
| "collect_expired now (key # keys) recs expired =
     (case recs key of
        None \<Rightarrow> collect_expired now keys recs expired
      | Some record \<Rightarrow>
          if now > ExpiresAt record
          then collect_expired now keys (recs(key := None)) (expired @ [ifr_Mission record])
          else collect_expired now keys recs expired)"

text \<open>The second loop, after the lock is released: each expired mission is logged and queued again.\<close>

fun return_expired :: "InFlightManager \<Rightarrow> Mission list \<Rightarrow> (InFlightManager, unit) outcome" where
  "return_expired m [] = Returned m ()"
| "return_expired m (miss # rest) =
     bind_outcome (log_prefix8 m (event_of miss)) (\<lambda>m _.
       return_expired (m\<lparr>rq := Enqueue (rq m) miss\<rparr>) rest)"

definition sweep :: "instant \<Rightarrow> string list \<Rightarrow> InFlightManager \<Rightarrow> (InFlightManager, unit) outcome" where
  "sweep now order m =
     (let (recs, expired) = collect_expired now order (records m) []
      in return_expired (m\<lparr>records := recs\<rparr>) expired)"

section \<open>Invariant\<close>

text \<open>Records are filed under their own event, and the queue is a heap.\<close>

definition radar_inv :: "InFlightManager \<Rightarrow> bool" where
  "radar_inv m \<longleftrightarrow> finite (dom (records m)) \<and> pq_invar (rq m) \<and>
     (\<forall>key r. records m key = Some r \<longrightarrow> event_of (ifr_Mission r) = key)"

text \<open>The missions in flight.\<close>

definition in_flight :: "InFlightManager \<Rightarrow> Mission multiset" where
  "in_flight m = image_mset ifr_Mission (map_values (records m))"

definition expired_at :: "instant \<Rightarrow> InFlightRecord \<Rightarrow> bool" where
  "expired_at now r \<longleftrightarrow> now > ExpiresAt r"

lemma collect_expired_records:
  "fst (collect_expired now keys recs acc) k =
     (case recs k of None \<Rightarrow> None | Some r \<Rightarrow> if k \<in> set keys \<and> expired_at now r then None else Some r)"
  by (induction keys arbitrary: recs acc) (auto simp: expired_at_def split: option.splits)

lemma collect_expired_missions:
  assumes "finite (dom recs)"
  shows "image_mset ifr_Mission (map_values (fst (collect_expired now keys recs acc))) +
      mset (snd (collect_expired now keys recs acc)) = image_mset ifr_Mission (map_values recs) + mset acc"
  using assms
proof (induction keys arbitrary: recs acc)
  case (Cons key keys)
  show ?case
  proof (cases "recs key")
    case (Some r)
    have "finite (dom (recs(key := None)))" using Cons.prems by simp
    note IH = Cons.IH [OF this, of "acc @ [ifr_Mission r]"] Cons.IH [OF Cons.prems, of acc]
    show ?thesis
    proof (cases "now > ExpiresAt r")
      case True
      then show ?thesis using Some IH(1) map_values_delete [OF Cons.prems Some] by (simp add: fun_upd_def)
    qed (use Some IH(2) in simp)
  qed (use Cons in simp)
qed simp

lemma collect_expired_subset:
  "m \<in> set (snd (collect_expired now keys recs acc)) \<Longrightarrow>
     m \<in> set acc \<or> (\<exists>key r. recs key = Some r \<and> m = ifr_Mission r \<and> expired_at now r)"
proof (induction keys arbitrary: recs acc)
  case (Cons key keys)
  show ?case
  proof (cases "recs key")
    case (Some r)
    show ?thesis
    proof (cases "now > ExpiresAt r")
      case True
      then have "m \<in> set (snd (collect_expired now keys (recs(key := None)) (acc @ [ifr_Mission r])))"
        using Cons.prems Some by simp
      from Cons.IH [OF this] Some True show ?thesis by (auto simp: expired_at_def split: if_splits)
    qed (use Cons Some in auto)
  qed (use Cons in auto)
qed simp

lemma return_expired_loggable:
  "\<forall>x \<in> set ms. loggable (event_of x) \<Longrightarrow>
     return_expired m ms = Returned (m\<lparr>rq := foldl Enqueue (rq m) ms\<rparr>) ()"
  by (induction ms arbitrary: m) auto

lemma records_return_expired: "records (out_state (return_expired m ms)) = records m"
proof (induction ms arbitrary: m)
  case (Cons x ms)
  then show ?case by (cases "loggable (event_of x)") auto
qed simp

lemma return_expired_Returned:
  "return_expired m ms = Returned m' u \<Longrightarrow> m' = m\<lparr>rq := foldl Enqueue (rq m) ms\<rparr>"
proof (induction ms arbitrary: m)
  case (Cons x ms)
  from Cons.prems have "return_expired (m\<lparr>rq := Enqueue (rq m) x\<rparr>) ms = Returned m' u"
    by (cases "loggable (event_of x)") auto
  from Cons.IH [OF this] show ?case by simp
qed simp

text \<open>A sweep that ends: every mission it took off the radar is in the queue.\<close>

lemma sweep_result:
  assumes "radar_inv m" "sweep now order m = Returned m' u"
  shows "radar_inv m'"
    "records m' k = (case records m k of None \<Rightarrow> None | Some r \<Rightarrow> if k \<in> set order \<and> expired_at now r then None else Some r)"
    "in_flight m' + pq_contents (rq m') = in_flight m + pq_contents (rq m)"
proof -
  obtain recs ex where c: "collect_expired now order (records m) [] = (recs, ex)" by fastforce
  have recs: "recs k = (case records m k of None \<Rightarrow> None | Some r \<Rightarrow> if k \<in> set order \<and> expired_at now r then None else Some r)" for k
    using collect_expired_records [of now order "records m" "[]" k] c by simp
  have fin: "finite (dom (records m))" and pq: "pq_invar (rq m)" using assms(1) by (auto simp: radar_inv_def)
  have m': "m' = m\<lparr>records := recs, rq := foldl Enqueue (rq m) ex\<rparr>"
    using assms(2) c return_expired_Returned [of "m\<lparr>records := recs\<rparr>" ex m' u] by (simp add: sweep_def)
  have q: "pq_invar (foldl Enqueue (rq m) ex)" "pq_contents (foldl Enqueue (rq m) ex) = pq_contents (rq m) + mset ex"
    using pq.enqueue_all [OF pq] by auto
  have "dom recs \<subseteq> dom (records m)" using recs by (auto split: option.splits)
  then show "radar_inv m'"
    using m' assms(1) q recs fin finite_subset by (auto simp: radar_inv_def split: option.splits if_splits)
  show "records m' k = (case records m k of None \<Rightarrow> None | Some r \<Rightarrow> if k \<in> set order \<and> expired_at now r then None else Some r)"
    using m' recs by simp
  have "in_flight (m\<lparr>records := recs\<rparr>) + mset ex = in_flight m"
    using collect_expired_missions [OF fin, of now order "[]"] c by (simp add: in_flight_def)
  then show "in_flight m' + pq_contents (rq m') = in_flight m + pq_contents (rq m)"
    using q(2) m' by (simp add: in_flight_def ac_simps)
qed

text \<open>A sweep ends when every expired record has a name the log can show.\<close>

lemma sweep_Returned:
  assumes "radar_inv m" "\<And>key r. records m key = Some r \<Longrightarrow> expired_at now r \<Longrightarrow> loggable key"
  obtains m' where "sweep now order m = Returned m' ()" "radar_inv m'"
    "\<forall>k. records m' k = (case records m k of None \<Rightarrow> None | Some r \<Rightarrow> if k \<in> set order \<and> expired_at now r then None else Some r)"
    "in_flight m' + pq_contents (rq m') = in_flight m + pq_contents (rq m)"
proof -
  obtain recs ex where c: "collect_expired now order (records m) [] = (recs, ex)" by fastforce
  have "loggable (event_of x)" if "x \<in> set ex" for x
    using collect_expired_subset [of x now order "records m" "[]"] that c assms unfolding radar_inv_def by fastforce
  then have s: "sweep now order m = Returned (m\<lparr>records := recs, rq := foldl Enqueue (rq m) ex\<rparr>) ()"
    using c by (simp add: sweep_def return_expired_loggable)
  show thesis using that [OF s] sweep_result [OF assms(1) s] by blast
qed

text \<open>The events on the radar are the names of the missions in flight.\<close>

lemma in_flight_events: "radar_inv m \<Longrightarrow> event_of ` set_mset (in_flight m) = dom (records m)"
  by (force simp: in_flight_def map_values_def radar_inv_def image_iff)

section \<open>Runs of the radar\<close>

datatype radar_op =
    RMark instant Mission duration
  | RRenew instant instant string duration
  | RAck string
  | RNack string
  | RSweep instant "string list"

text \<open>
  What has become of the missions that are no longer tracked: those that were acknowledged, and those that a
  later mark of the same event has replaced (\<open>MarkInFlight\<close> overwrites the record).
\<close>

record fates =
  acked :: "Mission multiset"
  replaced :: "Mission multiset"

abbreviation no_fates :: fates where
  "no_fates \<equiv> \<lparr>acked = {#}, replaced = {#}\<rparr>"

definition tracked_mission :: "InFlightManager \<Rightarrow> string \<Rightarrow> Mission multiset" where
  "tracked_mission m e = (case records m e of None \<Rightarrow> {#} | Some r \<Rightarrow> {#ifr_Mission r#})"

fun radar_step :: "InFlightManager \<times> fates \<Rightarrow> radar_op \<Rightarrow> InFlightManager \<times> fates" where
  "radar_step (m, fs) (RMark now mission dur) =
     (MarkInFlight now m mission dur, fs\<lparr>replaced := replaced fs + tracked_mission m (event_of mission)\<rparr>)"
| "radar_step (m, fs) (RRenew now now' e dur) = (fst (RenewLease now now' m e dur), fs)"
| "radar_step (m, fs) (RAck e) = (fst (Acknowledge m e), fs\<lparr>acked := acked fs + tracked_mission m e\<rparr>)"
| "radar_step (m, fs) (RNack e) = (fst (Nack m e), fs)"
| "radar_step (m, fs) (RSweep now order) = (out_state (sweep now order m), fs)"

fun radar_run :: "InFlightManager \<times> fates \<Rightarrow> radar_op list \<Rightarrow> InFlightManager \<times> fates" where
  "radar_run s [] = s"
| "radar_run s (op # ops) = radar_run (radar_step s op) ops"

fun marked :: "radar_op list \<Rightarrow> Mission multiset" where
  "marked [] = {#}"
| "marked (RMark now mission dur # ops) = add_mset mission (marked ops)"
| "marked (_ # ops) = marked ops"

definition radar_logs :: "InFlightManager \<Rightarrow> bool" where
  "radar_logs m \<longleftrightarrow> radar_inv m \<and> (\<forall>e r. records m e = Some r \<longrightarrow> loggable e)"

lemma in_flight_insert:
  "finite (dom (records m)) \<Longrightarrow> records m e = None \<Longrightarrow>
     in_flight (m\<lparr>records := (records m)(e \<mapsto> r)\<rparr>) = add_mset (ifr_Mission r) (in_flight m)"
  by (simp add: in_flight_def map_values_insert)

lemma in_flight_delete:
  "finite (dom (records m)) \<Longrightarrow> records m e = Some r \<Longrightarrow>
     in_flight m = add_mset (ifr_Mission r) (in_flight (m\<lparr>records := (records m)(e := None)\<rparr>))"
  by (simp add: in_flight_def map_values_delete [where k = e])

lemma in_flight_renew:
  assumes "finite (dom (records m))" "records m e = Some r"
  shows "in_flight (m\<lparr>records := (records m)(e \<mapsto> r\<lparr>ExpiresAt := x\<rparr>)\<rparr>) = in_flight m"
proof -
  let ?n = "m\<lparr>records := (records m)(e := None)\<rparr>"
  have "in_flight (?n\<lparr>records := (records ?n)(e \<mapsto> r\<lparr>ExpiresAt := x\<rparr>)\<rparr>) = add_mset (ifr_Mission r) (in_flight ?n)"
    using assms by (subst in_flight_insert) auto
  then show ?thesis using in_flight_delete [OF assms] by simp
qed

lemma in_flight_rq [simp]: "in_flight (m\<lparr>rq := q\<rparr>) = in_flight m"
  by (simp add: in_flight_def)

lemma in_flight_mark:
  assumes "finite (dom (records m))"
  shows "in_flight (MarkInFlight now m mission dur) + tracked_mission m (event_of mission) = add_mset mission (in_flight m)"
proof (cases "records m (event_of mission)")
  case None
  then show ?thesis using assms by (simp add: MarkInFlight_def tracked_mission_def in_flight_insert)
next
  case (Some r)
  let ?n = "m\<lparr>records := (records m)(event_of mission := None)\<rparr>"
  have "in_flight (MarkInFlight now ?n mission dur) = add_mset mission (in_flight ?n)"
    unfolding MarkInFlight_def by (subst in_flight_insert) (use assms in simp_all)
  moreover have "MarkInFlight now m mission dur = MarkInFlight now ?n mission dur" by (simp add: MarkInFlight_def)
  ultimately have "in_flight (MarkInFlight now m mission dur) = add_mset mission (in_flight ?n)" by simp
  then show ?thesis using Some in_flight_delete [OF assms Some] by (simp add: tracked_mission_def)
qed

text \<open>All missions a radar was given, and the events that are still tracked, queued or acknowledged.\<close>

definition all_missions :: "InFlightManager \<times> fates \<Rightarrow> Mission multiset" where
  "all_missions s = in_flight (fst s) + pq_contents (rq (fst s)) + acked (snd s) + replaced (snd s)"

definition live_missions :: "InFlightManager \<times> fates \<Rightarrow> Mission multiset" where
  "live_missions s = in_flight (fst s) + pq_contents (rq (fst s)) + acked (snd s)"

text \<open>One step keeps the invariant; a mission leaves the radar by an acknowledgement or by another mission of its event.\<close>

lemma radar_step_correct:
  assumes "radar_logs m" "\<forall>x \<in># marked [op]. loggable (event_of x)" "radar_step (m, fs) op = s'"
  shows "radar_logs (fst s') \<and> all_missions s' = all_missions (m, fs) + marked [op] \<and>
    event_of ` set_mset (live_missions s') = event_of ` set_mset (live_missions (m, fs) + marked [op])"
proof -
  have fin: "finite (dom (records m))" and q: "pq_invar (rq m)" and inv: "radar_inv m"
    using assms(1) by (auto simp: radar_logs_def radar_inv_def)
  show ?thesis
  proof (cases op)
    case (RMark now mission dur)
    let ?n = "MarkInFlight now m mission dur"
    have n: "radar_inv ?n" "rq ?n = rq m" "radar_logs ?n"
      using assms(1,2) RMark inv by (auto simp: MarkInFlight_def radar_logs_def radar_inv_def split: if_splits)
    have "event_of ` set_mset (in_flight ?n) = insert (event_of mission) (event_of ` set_mset (in_flight m))"
      unfolding in_flight_events [OF inv] in_flight_events [OF n(1)] by (simp add: MarkInFlight_def)
    then show ?thesis
      using RMark assms(3) n in_flight_mark [OF fin, of now mission dur]
      by (auto simp: all_missions_def live_missions_def image_Un ac_simps)
  next
    case (RRenew now now' e dur)
    then show ?thesis
      using assms fin by (auto simp: RenewLease_def in_flight_renew radar_logs_def radar_inv_def all_missions_def live_missions_def
        split: option.splits if_splits)
  next
    case (RAck e)
    then show ?thesis
      using assms fin in_flight_delete [OF fin, of e]
      by (auto simp: Acknowledge_def radar_logs_def radar_inv_def tracked_mission_def all_missions_def live_missions_def
        split: option.splits if_splits)
  next
    case (RNack e)
    have "radar_logs (fst s')" "live_missions s' = live_missions (m, fs)" "replaced (snd s') = replaced fs"
      using RNack assms(1,3) q in_flight_delete [OF fin, of e]
      by (auto simp: Nack_def pq.contents_enqueue pq.invar_enqueue radar_logs_def radar_inv_def live_missions_def
        split: option.splits if_splits)
    then show ?thesis using RNack by (simp add: all_missions_def live_missions_def)
  next
    case (RSweep now order)
    obtain m'' where s: "sweep now order m = Returned m'' ()" "radar_inv m''"
      "\<forall>k. records m'' k = (case records m k of None \<Rightarrow> None | Some r \<Rightarrow> if k \<in> set order \<and> expired_at now r then None else Some r)"
      "in_flight m'' + pq_contents (rq m'') = in_flight m + pq_contents (rq m)"
      by (rule sweep_Returned [OF inv]) (use assms(1) in \<open>auto simp: radar_logs_def\<close>)
    have "radar_logs m''" using s(2,3) assms(1) by (auto simp: radar_logs_def split: option.splits if_splits)
    moreover have "s' = (m'', fs)" using s(1) RSweep assms(3) by simp
    moreover have "live_missions (m'', fs) = live_missions (m, fs)" using s(4) by (simp add: live_missions_def)
    ultimately show ?thesis using RSweep by (simp add: all_missions_def live_missions_def)
  qed
qed

lemma radar_run_correct:
  assumes "radar_logs (fst s)" "\<forall>x \<in># marked ops. loggable (event_of x)"
  shows "all_missions (radar_run s ops) = all_missions s + marked ops \<and>
    event_of ` set_mset (live_missions (radar_run s ops)) = event_of ` set_mset (live_missions s + marked ops)"
  using assms
proof (induction ops arbitrary: s)
  case (Cons op ops)
  obtain m fs where s: "s = (m, fs)" by fastforce
  have o: "marked (op # ops) = marked [op] + marked ops" by (cases op) auto
  note step = radar_step_correct [of m op fs, OF _ _ refl]
  have l: "radar_logs m" "\<forall>x \<in># marked [op]. loggable (event_of x)" "\<forall>x \<in># marked ops. loggable (event_of x)"
    using Cons.prems s o by auto
  note IH = Cons.IH [of "radar_step (m, fs) op", OF _ l(3)]
  show ?case using step [OF l(1,2)] IH s o by (simp add: image_Un ac_simps)
qed simp

section \<open>Properties\<close>

text \<open>C14. No mission is lost or duplicated in flight: whatever sequence of marks, renewals, acknowledgements,
  aborts and janitor sweeps the radar goes through, in whatever order the janitor visits
  its records, for events with names of at least eight bytes, the missions it was given are exactly those in
  flight, those returned to the queue, those acknowledged, and those a later mark of the same event replaced,
  each once. And no event is lost: the events it was given are those of the missions in flight, in the queue or
  acknowledged.\<close>

theorem radar_conserves_missions:
  assumes "radar_run (NewInFlightManager (New limit), no_fates) ops = (m, fs)" "\<forall>x \<in># marked ops. loggable (event_of x)"
  shows "in_flight m + mset (mh (rq m)) + acked fs + replaced fs = marked ops \<and>
    event_of ` set_mset (in_flight m + mset (mh (rq m)) + acked fs) = event_of ` set_mset (marked ops)"
proof -
  let ?s = "(NewInFlightManager (New limit), no_fates)"
  have "radar_logs (fst ?s)" by (simp add: radar_logs_def radar_inv_def NewInFlightManager_def)
  moreover have "all_missions ?s = {#}" "live_missions ?s = {#}"
    by (simp_all add: all_missions_def live_missions_def NewInFlightManager_def in_flight_def)
  ultimately show ?thesis
    using radar_run_correct [of ?s ops] assms by (simp add: all_missions_def live_missions_def pq_contents_def)
qed

definition example_radar_ops :: "radar_op list" where
  "example_radar_ops =
     [RMark 0 (example_mission ''event-01'' False 1) 10, RMark 5 (example_mission ''event-02'' False 2) 10,
      RMark 6 (example_mission ''event-02'' True 3) 10, RSweep 12 [''event-02'', ''event-01''], RAck ''event-02'']"

theorem radar_conserves_missions_witness:
  "\<exists>m fs. radar_run (NewInFlightManager (New 10), no_fates) example_radar_ops = (m, fs) \<and>
     in_flight m + mset (mh (rq m)) + acked fs + replaced fs =
       {#example_mission ''event-01'' False 1, example_mission ''event-02'' False 2, example_mission ''event-02'' True 3#}"
proof -
  have m: "marked example_radar_ops =
      {#example_mission ''event-01'' False 1, example_mission ''event-02'' False 2, example_mission ''event-02'' True 3#}"
    by (simp add: example_radar_ops_def)
  then have "\<forall>x \<in># marked example_radar_ops. loggable (event_of x)" by (simp add: example_mission_def loggable_def)
  from radar_conserves_missions [OF prod.collapse [symmetric] this] m show ?thesis by (metis prod.collapse)
qed

text \<open>C26. The janitor keeps to the lease: a complete sweep at time \<open>now\<close> leaves a mission in flight exactly
  when its lease has not run out, and every mission whose lease has run out is back in the queue.\<close>

theorem sweep_respects_leases:
  assumes "radar_inv m" "\<forall>e r. records m e = Some r \<longrightarrow> loggable e" "range_order (records m) order"
  shows "\<exists>m'. sweep now order m = Returned m' () \<and>
    (\<forall>e r. records m' e = Some r \<longleftrightarrow> records m e = Some r \<and> now \<le> ExpiresAt r) \<and>
    (\<forall>e r. records m e = Some r \<longrightarrow> now > ExpiresAt r \<longrightarrow> ifr_Mission r \<in> set (mh (rq m')))"
proof -
  have log: "\<And>e r. records m e = Some r \<Longrightarrow> expired_at now r \<Longrightarrow> loggable e" using assms(2) by blast
  obtain m' where s: "sweep now order m = Returned m' ()" "radar_inv m'"
    "\<forall>k. records m' k = (case records m k of None \<Rightarrow> None | Some r \<Rightarrow> if k \<in> set order \<and> expired_at now r then None else Some r)"
    "in_flight m' + pq_contents (rq m') = in_flight m + pq_contents (rq m)"
    by (rule sweep_Returned [where order = order, OF assms(1) log])
  have kept: "records m' e = Some r \<longleftrightarrow> records m e = Some r \<and> now \<le> ExpiresAt r" for e r
    using s(3) [rule_format, of e] assms(3) by (auto simp: range_order_mem expired_at_def split: option.splits if_splits)
  have "ifr_Mission r \<in> set (mh (rq m'))" if r: "records m e = Some r" "now > ExpiresAt r" for e r
  proof -
    have fin: "finite (dom (records m))" "finite (dom (records m'))" using assms(1) s(2) by (auto simp: radar_inv_def)
    have "ifr_Mission r \<in># in_flight m" using in_flight_delete [OF fin(1) r(1)] by simp
    then have "ifr_Mission r \<in># in_flight m' + pq_contents (rq m')" using s(4) by simp
    moreover have "ifr_Mission r \<notin># in_flight m'"
    proof
      assume "ifr_Mission r \<in># in_flight m'"
      then obtain e' r' where r': "records m' e' = Some r'" "ifr_Mission r' = ifr_Mission r"
        using fin(2) by (auto simp: in_flight_def map_values_def)
      then have "e' = event_of (ifr_Mission r')" "e = event_of (ifr_Mission r)"
        using s(2) assms(1) r(1) unfolding radar_inv_def by metis+
      then show False using r' r kept by auto
    qed
    ultimately show ?thesis by (simp add: pq_contents_def)
  qed
  with s(1) kept show ?thesis by blast
qed

theorem sweep_respects_leases_witness:
  "\<exists>m'. sweep 12 [''event-01''] (MarkInFlight 0 (NewInFlightManager (New 10)) (example_mission ''event-01'' False 1) 10) = Returned m' () \<and>
     example_mission ''event-01'' False 1 \<in> set (mh (rq m'))"
proof -
  let ?x = "example_mission ''event-01'' False 1"
  let ?m = "MarkInFlight 0 (NewInFlightManager (New 10)) ?x 10"
  have e: "event_of ?x = ''event-01''" by (simp add: example_mission_def)
  have i: "radar_inv ?m"
    by (auto simp: radar_inv_def MarkInFlight_def NewInFlightManager_def split: if_splits)
  have l: "\<forall>e r. records ?m e = Some r \<longrightarrow> loggable e" and o: "range_order (records ?m) [''event-01'']"
    and r: "records ?m ''event-01'' = Some \<lparr>ifr_Mission = ?x, ExpiresAt = 0 + 10\<rparr>"
    by (auto simp: MarkInFlight_def NewInFlightManager_def e loggable_def range_order_def split: if_splits)
  from sweep_respects_leases [OF i l o, of 12] r show ?thesis by fastforce
qed

text \<open>A renewal holds for its whole duration: it succeeds exactly for a mission that is tracked and whose
  lease has not run out, and then no sweep up to the end of the new lease takes the mission away.\<close>

lemma renewal_protects:
  assumes "t \<le> now' + dur"
  shows "(snd (RenewLease now now' m eventID dur) \<longleftrightarrow> (\<exists>r. records m eventID = Some r \<and> now \<le> ExpiresAt r)) \<and>
    (snd (RenewLease now now' m eventID dur) \<longrightarrow>
     records (out_state (sweep t order (fst (RenewLease now now' m eventID dur)))) eventID =
     map_option (\<lambda>r. r\<lparr>ExpiresAt := now' + dur\<rparr>) (records m eventID))"
proof -
  let ?n = "fst (RenewLease now now' m eventID dur)"
  have "records (out_state (sweep t order ?n)) eventID = fst (collect_expired t order (records ?n) []) eventID"
    by (simp add: sweep_def records_return_expired split: prod.split)
  then show ?thesis
    using assms by (auto simp: RenewLease_def collect_expired_records expired_at_def split: option.splits)
qed

end
