(* ===== verification/Station.thy ===== *)
theory Station
  imports Radar HTTP_Client Go_Lib
begin

text \<open>
  The station of \<open>src/cmd/station/http_server.go\<close> and \<open>src/cmd/station/main.go\<close>: it gives the missions of a broker to
  registered drones, keeps them on its radar, and reports to the broker what became of them. The
  radar's queue is the \<open>dummyQueue\<close> of \<open>main\<close>, from which the fallback loop takes the missions whose lease
  ran out. The JSON codec and the network are parameters; the reports the station tries to post to
  \<open>/queue/resolve\<close> are kept in its state, with their address, action and mission, and beside them those
  for which \<open>PostJSON\<close> returned without an error. The code ignores that error.
\<close>

section \<open>State\<close>

record station_json =
  decode_drone :: "bytes \<Rightarrow> string option"
  marshal_direct :: "string \<Rightarrow> bytes"
  decode_pulled :: "bytes \<Rightarrow> Mission option"
  marshal_pulled :: "Mission \<Rightarrow> bytes"
  decode_ack :: "bytes \<Rightarrow> string \<times> string"
  marshal_resolve :: "string \<Rightarrow> Mission \<Rightarrow> bytes option"

type_synonym report = "string \<times> string \<times> Mission"

record StationServer =
  BrokerURL :: string
  st_Radar :: InFlightManager
  st_HTTPClient :: HTTPClient
  RegisteredDrones :: "string \<rightharpoonup> instant"
  posted :: "report list"
  confirmed :: "report list"

definition NewStationServer :: "string \<Rightarrow> StationServer" where
  "NewStationServer brokerURL =
     \<lparr>BrokerURL = brokerURL, st_Radar = NewInFlightManager (New 10), st_HTTPClient = NewHTTPClient (2 * Second),
      RegisteredDrones = Map.empty, posted = [], confirmed = []\<rparr>"

section \<open>Handlers\<close>

definition handleRegister :: "station_json \<Rightarrow> instant \<Rightarrow> string \<Rightarrow> bytes \<Rightarrow> StationServer \<Rightarrow> StationServer \<times> response" where
  "handleRegister J now hostname body s =
     (case decode_drone J body of
        None \<Rightarrow> (s, http_Error ''Bad request'' 400)
      | Some droneID \<Rightarrow>
          (s\<lparr>RegisteredDrones := (RegisteredDrones s)(droneID \<mapsto> now)\<rparr>,
           reply 200 (marshal_direct J (''http://'' @ hostname @ '':8081''))))"

text \<open>The network is a function of the address and the number of the attempt.\<close>

definition handleMissionPull ::
    "station_json \<Rightarrow> (string \<Rightarrow> nat \<Rightarrow> attempt) \<Rightarrow> instant \<Rightarrow> string \<Rightarrow> StationServer \<Rightarrow> (StationServer, response) outcome" where
  "handleMissionPull J net now droneID s =
     (if RegisteredDrones s droneID = None
      then Returned s (http_Error (''Drone n'' @ [CHR 0xC3, CHR 0xA3] @ ''o registado'') 401)
      else
        let url = BrokerURL s @ ''/queue/pop''
        in case fst (GetJSON (st_HTTPClient s) (net url) (Some (decode_pulled J))) of
             Inr (Some mission) \<Rightarrow>
               if event_of mission = [] then Returned s (reply 204 [])
               else
                 let s = s\<lparr>st_Radar := MarkInFlight now (st_Radar s) mission (10 * Second)\<rparr>
                 in bind_outcome (log_prefix8 s (event_of mission)) (\<lambda>s _. Returned s (reply 200 (marshal_pulled J mission)))
           | _ \<Rightarrow> Returned s (reply 204 []))"

definition handleMissionRenew :: "instant \<Rightarrow> instant \<Rightarrow> string \<Rightarrow> StationServer \<Rightarrow> StationServer \<times> response" where
  "handleMissionRenew now now' eventID s =
     (let (r, ok) = RenewLease now now' (st_Radar s) eventID (10 * Second); s = s\<lparr>st_Radar := r\<rparr>
      in if ok then (s, reply 200 []) else (s, reply 410 []))"

text \<open>The report of what became of a mission. Its error is ignored: a report that fails is not repeated.\<close>

type_synonym post_net = "string \<Rightarrow> bytes \<Rightarrow> nat \<Rightarrow> attempt"

definition post_resolve :: "station_json \<Rightarrow> HTTPClient \<Rightarrow> post_net \<Rightarrow> string \<Rightarrow> string \<Rightarrow> Mission \<Rightarrow> bool" where
  "post_resolve J hc net url action mission =
     (let payload = marshal_resolve J action mission
      in case fst (PostJSON hc payload (net url (case payload of None \<Rightarrow> [] | Some b \<Rightarrow> b)) (None :: (bytes \<Rightarrow> unit option) option)) of
           Inl err \<Rightarrow> False
         | Inr _ \<Rightarrow> True)"

definition report_resolve :: "station_json \<Rightarrow> post_net \<Rightarrow> string \<Rightarrow> Mission \<Rightarrow> StationServer \<Rightarrow> StationServer" where
  "report_resolve J net action mission s =
     (let resolveURL = BrokerURL s @ ''/queue/resolve'';
          ok = post_resolve J (st_HTTPClient s) net resolveURL action mission
      in s\<lparr>posted := posted s @ [(resolveURL, action, mission)],
           confirmed := confirmed s @ (if ok then [(resolveURL, action, mission)] else [])\<rparr>)"

text \<open>A decoding error is ignored: what could be decoded is used.\<close>

definition handleMissionAck :: "station_json \<Rightarrow> post_net \<Rightarrow> bytes \<Rightarrow> StationServer \<Rightarrow> (StationServer, response) outcome" where
  "handleMissionAck J net body s =
     (let (eventID, droneID) = decode_ack J body;
          s = s\<lparr>st_Radar := fst (Acknowledge (st_Radar s) eventID)\<rparr>;
          mission = zero_Mission\<lparr>Payload := zero_SensorData\<lparr>EventID := eventID\<rparr>\<rparr>;
          s = report_resolve J net ''SUCCESS'' mission s
      in bind_outcome (log_prefix8 s eventID) (\<lambda>s _. Returned s (reply 200 [])))"

text \<open>One tick of the fallback loop: the log line comes before the post.\<close>

definition fallback_tick :: "station_json \<Rightarrow> post_net \<Rightarrow> StationServer \<Rightarrow> (StationServer, unit) outcome" where
  "fallback_tick J net s =
     (let (q, mission, found) = Dequeue (rq (st_Radar s)); s = s\<lparr>st_Radar := (st_Radar s)\<lparr>rq := q\<rparr>\<rparr>
      in if \<not> found then Returned s ()
         else bind_outcome (log_prefix8 s (event_of mission)) (\<lambda>s _. Returned (report_resolve J net ''REQUEUE'' mission s) ()))"

section \<open>The running station\<close>

datatype station_event =
    SRegister instant string bytes
  | SPull "string \<Rightarrow> nat \<Rightarrow> attempt" instant string
  | SRenew instant instant string
  | SAck post_net bytes
  | SSweep instant "string list"
  | SFallback post_net
  | SAging uint64

fun station_step :: "station_json \<Rightarrow> StationServer \<Rightarrow> station_event \<Rightarrow> (StationServer, unit) outcome" where
  "station_step J s (SRegister now hostname body) = Returned (fst (handleRegister J now hostname body s)) ()"
| "station_step J s (SPull net now droneID) = recovered (handleMissionPull J net now droneID s)"
| "station_step J s (SRenew now now' eventID) = Returned (fst (handleMissionRenew now now' eventID s)) ()"
| "station_step J s (SAck net body) = recovered (handleMissionAck J net body s)"
| "station_step J s (SSweep now order) = on_state (\<lambda>r. s\<lparr>st_Radar := r\<rparr>) (sweep now order (st_Radar s))"
| "station_step J s (SFallback net) = fallback_tick J net s"
| "station_step J s (SAging c) =
     Returned (s\<lparr>st_Radar := (st_Radar s)\<lparr>rq := antiStarvation_pass c (rq (st_Radar s))\<rparr>\<rparr>) ()"

fun station_run :: "station_json \<Rightarrow> StationServer \<Rightarrow> station_event list \<Rightarrow> (StationServer, unit) outcome" where
  "station_run J s [] = Returned s ()"
| "station_run J s (ev # evs) = bind_outcome (station_step J s ev) (\<lambda>s _. station_run J s evs)"

section \<open>Tracked and reported events\<close>

definition tracked :: "StationServer \<Rightarrow> string set" where
  "tracked s = dom (records (st_Radar s)) \<union> queued (rq (st_Radar s))"

abbreviation report_event :: "report \<Rightarrow> string" where
  "report_event r \<equiv> event_of (snd (snd r))"

text \<open>The network of an event lets every report through, after failures that pass at most.\<close>

fun posts_through :: "station_json \<Rightarrow> station_event \<Rightarrow> bool" where
  "posts_through J (SAck net body) = (\<forall>url action m. post_resolve J (NewHTTPClient (2 * Second)) net url action m)"
| "posts_through J (SFallback net) = (\<forall>url action m. post_resolve J (NewHTTPClient (2 * Second)) net url action m)"
| "posts_through J _ = True"

fun acknowledges :: "station_json \<Rightarrow> station_event \<Rightarrow> string \<Rightarrow> bool" where
  "acknowledges J (SAck net body) e \<longleftrightarrow> fst (decode_ack J body) = e"
| "acknowledges J _ e \<longleftrightarrow> False"

definition station_inv :: "StationServer \<Rightarrow> bool" where
  "station_inv s \<longleftrightarrow> radar_inv (st_Radar s) \<and> st_HTTPClient s = NewHTTPClient (2 * Second)"

text \<open>
  What a run does with the tracked events: the ones that are no longer tracked are in a report tried in this
  run; successes are reported only for acknowledged events; and what the network lets through is confirmed.
\<close>

definition answered_for :: "station_json \<Rightarrow> station_event list \<Rightarrow> StationServer \<Rightarrow> StationServer \<Rightarrow> report list \<Rightarrow> bool" where
  "answered_for J evs s s' tried \<longleftrightarrow>
     posted s' = posted s @ tried \<and> set (confirmed s) \<subseteq> set (confirmed s') \<and>
     tracked s \<subseteq> tracked s' \<union> report_event ` set tried \<and>
     (\<forall>url action m. (url, action, m) \<in> set tried \<longrightarrow>
        action = ''REQUEUE'' \<or> action = ''SUCCESS'' \<and> (\<exists>ev \<in> set evs. acknowledges J ev (event_of m))) \<and>
     ((\<forall>ev \<in> set evs. posts_through J ev) \<longrightarrow> set tried \<subseteq> set (confirmed s'))"

definition station_keeps :: "station_json \<Rightarrow> station_event list \<Rightarrow> StationServer \<Rightarrow> StationServer \<Rightarrow> bool" where
  "station_keeps J evs s s' \<longleftrightarrow> (station_inv s \<longrightarrow> station_inv s' \<and> (\<exists>tried. answered_for J evs s s' tried))"

lemma station_keepsI:
  assumes "st_HTTPClient s' = st_HTTPClient s" "posted s' = posted s" "confirmed s' = confirmed s"
    and "radar_inv (st_Radar s) \<Longrightarrow> radar_inv (st_Radar s') \<and> tracked s \<subseteq> tracked s'"
  shows "station_keeps J evs s s'"
  using assms unfolding station_keeps_def station_inv_def answered_for_def by (auto intro!: exI [of _ "[]"])

lemma station_keeps_append:
  assumes "station_keeps J evs s s'" "station_keeps J evs' s' s''"
  shows "station_keeps J (evs @ evs') s s''"
proof -
  have "answered_for J (evs @ evs') s s'' (t @ t')" if "answered_for J evs s s' t" "answered_for J evs' s' s'' t'" for t t'
    using that unfolding answered_for_def by (simp add: image_Un) blast
  then show ?thesis using assms unfolding station_keeps_def by blast
qed

text \<open>A report that is tried.\<close>

lemma report_resolve_sel [simp]:
  "st_Radar (report_resolve J net action m s) = st_Radar s" "st_HTTPClient (report_resolve J net action m s) = st_HTTPClient s"
  "BrokerURL (report_resolve J net action m s) = BrokerURL s"
  "posted (report_resolve J net action m s) = posted s @ [(BrokerURL s @ ''/queue/resolve'', action, m)]"
  by (simp_all add: report_resolve_def Let_def)

lemma station_keeps_report:
  assumes "s' = report_resolve J net action m (s\<lparr>st_Radar := r\<rparr>)" "ev = SFallback net \<or> (\<exists>body. ev = SAck net body)"
    and "action = ''REQUEUE'' \<or> action = ''SUCCESS'' \<and> acknowledges J ev (event_of m)"
    and "radar_inv (st_Radar s) \<Longrightarrow> radar_inv r \<and> dom (records (st_Radar s)) \<union> queued (rq (st_Radar s)) \<subseteq>
      insert (event_of m) (dom (records r) \<union> queued (rq r))"
  shows "station_keeps J [ev] s s'"
  unfolding station_keeps_def
proof
  assume inv: "station_inv s"
  let ?report = "(BrokerURL s @ ''/queue/resolve'', action, m)"
  have "posts_through J ev \<Longrightarrow> ?report \<in> set (confirmed s')"
    using assms(1,2) inv by (auto simp: report_resolve_def station_inv_def Let_def)
  moreover have "set (confirmed s) \<subseteq> set (confirmed s')" using assms(1) by (simp add: report_resolve_def Let_def)
  ultimately have "answered_for J [ev] s s' [?report]"
    using assms(3,4) inv unfolding answered_for_def by (auto simp: assms(1) station_inv_def tracked_def)
  moreover have "station_inv s'" using assms(4) inv by (simp add: assms(1) station_inv_def)
  ultimately show "station_inv s' \<and> (\<exists>tried. answered_for J [ev] s s' tried)" by blast
qed

lemma station_keeps_pull: "station_keeps J evs s (out_state (handleMissionPull J net now droneID s))"
  by (rule station_keepsI) (auto simp: handleMissionPull_def tracked_def radar_inv_def MarkInFlight_def Let_def
      split: sum.split option.split if_splits)

lemma station_keeps_renew: "station_keeps J evs s (fst (handleMissionRenew now now' e s))"
  by (rule station_keepsI) (auto simp: handleMissionRenew_def tracked_def radar_inv_def RenewLease_def
      split: option.split if_splits)

lemma station_keeps_ack: "station_keeps J [SAck net body] s (out_state (handleMissionAck J net body s))"
proof -
  obtain e i where d: "decode_ack J body = (e, i)" by fastforce
  show ?thesis
    by (rule station_keeps_report [where net = net and action = "''SUCCESS''"
          and m = "zero_Mission\<lparr>Payload := zero_SensorData\<lparr>EventID := e\<rparr>\<rparr>" and r = "fst (Acknowledge (st_Radar s) e)"])
      (auto simp: handleMissionAck_def d Acknowledge_def radar_inv_def split: option.splits if_splits)
qed

text \<open>A sweep that ends tracks the same events as before.\<close>

lemma sweep_events:
  assumes "radar_inv m" "sweep now order m = Returned m' u"
  shows "dom (records m') \<union> queued (rq m') = dom (records m) \<union> queued (rq m)"
proof -
  note r = sweep_result [OF assms]
  have "event_of ` set_mset (in_flight m' + pq_contents (rq m')) = event_of ` set_mset (in_flight m + pq_contents (rq m))"
    using r(3) by simp
  then show ?thesis using in_flight_events [OF assms(1)] in_flight_events [OF r(1)] by (simp add: queued_def image_Un)
qed

lemma station_keeps_sweep:
  "sweep now order (st_Radar s) = Returned r u \<Longrightarrow> station_keeps J evs s (s\<lparr>st_Radar := r\<rparr>)"
  using sweep_events [of "st_Radar s" now order r u] sweep_result(1) [of "st_Radar s" now order r u]
  by (intro station_keepsI) (auto simp: tracked_def)

lemma station_keeps_fallback:
  assumes "fallback_tick J net s = Returned s' u"
  shows "station_keeps J [SFallback net] s s'"
proof -
  obtain q m found where d: "Dequeue (rq (st_Radar s)) = (q, m, found)" by (metis prod_cases3)
  show ?thesis
  proof (cases found)
    case True
    then have s': "s' = report_resolve J net ''REQUEUE'' m (s\<lparr>st_Radar := (st_Radar s)\<lparr>rq := q\<rparr>\<rparr>)"
      using assms d by (cases "loggable (event_of m)") (auto simp: fallback_tick_def)
    have "pq_invar (rq (st_Radar s)) \<Longrightarrow> pq_invar q \<and> queued (rq (st_Radar s)) = insert (event_of m) (queued q)"
      using queued_Dequeue d True by simp
    then show ?thesis by (intro station_keeps_report [OF s']) (auto simp: radar_inv_def)
  next
    case False
    then have "q = rq (st_Radar s)" using d by (simp add: Dequeue_none)
    then have "s' = s" using assms d False by (simp add: fallback_tick_def)
    then show ?thesis by (simp add: station_keepsI)
  qed
qed

lemma station_keeps_step: "station_step J s ev = Returned s' u \<Longrightarrow> station_keeps J [ev] s s'"
proof (induction J s ev rule: station_step.induct)
  case (1 J s now hostname body)
  then show ?case by (intro station_keepsI) (auto simp: handleRegister_def tracked_def split: option.splits)
next
  case (2 J s net now droneID)
  then show ?case using station_keeps_pull by (auto simp: recovered_out_state)
next
  case (3 J s now now' e)
  then show ?case using station_keeps_renew by auto
next
  case (4 J s net body)
  then show ?case using station_keeps_ack by (auto simp: recovered_out_state)
next
  case (5 J s now order)
  then show ?case using station_keeps_sweep by (cases "sweep now order (st_Radar s)") auto
next
  case (6 J s net)
  then show ?case using station_keeps_fallback by simp
next
  case (7 J s c)
  then show ?case using queued_aging [of "rq (st_Radar s)" c] by (intro station_keepsI) (auto simp: tracked_def radar_inv_def)
qed

lemma station_keeps_run: "station_run J s evs = Returned s' u \<Longrightarrow> station_keeps J evs s s'"
proof (induction evs arbitrary: s)
  case (Cons ev evs)
  then obtain t where t: "station_step J s ev = Returned t ()" "station_run J t evs = Returned s' u"
    by (auto simp: bind_outcome_Returned)
  show ?case using station_keeps_append [OF station_keeps_step [OF t(1)] Cons.IH [OF t(2)]] by simp
qed (simp add: station_keepsI)

lemma radar_inv_New [simp]: "radar_inv (st_Radar (NewStationServer url))"
  by (simp add: NewStationServer_def NewInFlightManager_def radar_inv_def)

section \<open>The fallback loop\<close>

lemma fallback_tick_found:
  assumes "Dequeue (rq (st_Radar s)) = (q, m, True)" "loggable (event_of m)"
  shows "fallback_tick J net s = Returned (report_resolve J net ''REQUEUE'' m (s\<lparr>st_Radar := (st_Radar s)\<lparr>rq := q\<rparr>\<rparr>)) ()"
  using assms by (simp add: fallback_tick_def)

text \<open>As many ticks as there are missions in its queue report each of them.\<close>

lemma fallback_drains:
  assumes "pq_invar (rq (st_Radar s))" "\<forall>m \<in># pq_contents (rq (st_Radar s)). loggable (event_of m)"
  shows "\<exists>s'. station_run J s (replicate (size (pq_contents (rq (st_Radar s)))) (SFallback net)) = Returned s' () \<and>
    set (posted s) \<subseteq> set (posted s') \<and>
    (\<forall>m \<in># pq_contents (rq (st_Radar s)). (BrokerURL s @ ''/queue/resolve'', ''REQUEUE'', m) \<in> set (posted s'))"
  using assms
proof (induction "size (pq_contents (rq (st_Radar s)))" arbitrary: s)
  case (Suc n)
  then have "pq_contents (rq (st_Radar s)) \<noteq> {#}" by auto
  then obtain q m where d: "Dequeue (rq (st_Radar s)) = (q, m, True)" using pq.dequeue_nonempty Suc.prems(1) by blast
  then have q: "pq_invar q" "pq_contents (rq (st_Radar s)) = add_mset m (pq_contents q)"
    using pq.dequeue_some Suc.prems(1) by auto
  let ?t = "report_resolve J net ''REQUEUE'' m (s\<lparr>st_Radar := (st_Radar s)\<lparr>rq := q\<rparr>\<rparr>)"
  have t: "fallback_tick J net s = Returned ?t ()" using fallback_tick_found [OF d] Suc.prems(2) q(2) by simp
  have "n = size (pq_contents (rq (st_Radar ?t)))" using Suc.hyps(2) q(2) by simp
  from Suc.hyps(1) [OF this] q Suc.prems(2) obtain s'
    where "station_run J ?t (replicate n (SFallback net)) = Returned s' ()" "set (posted ?t) \<subseteq> set (posted s')"
      "\<forall>m \<in># pq_contents q. (BrokerURL s @ ''/queue/resolve'', ''REQUEUE'', m) \<in> set (posted s')"
    using \<open>n = size (pq_contents (rq (st_Radar ?t)))\<close> by auto
  moreover have "n = size (pq_contents q)" using Suc.hyps(2) q(2) by simp
  ultimately show ?case using t q(2) by auto
qed simp

section \<open>Properties\<close>

text \<open>C29. A station answers for every mission it has taken. From any state it can reach, and through any further run: an
  event that is on its radar or in its fallback queue stays there, or the station has in this run tried to post a
  report of it to the broker; it reports a success only for an event a drone acknowledged in this run; and while
  the network lets the posts through within the retries, every report it tried is confirmed. (A post that fails all
  its attempts is not repeated.)\<close>

theorem station_reports_every_mission:
  assumes "station_run J (NewStationServer url) evs = Returned s u" "station_run J s evs' = Returned s' u'"
    and "e \<in> tracked s"
  shows "\<exists>tried. posted s' = posted s @ tried \<and>
    (e \<in> tracked s' \<or> (\<exists>report \<in> set tried. report_event report = e)) \<and>
    (\<forall>url action m. (url, action, m) \<in> set tried \<longrightarrow>
       action = ''REQUEUE'' \<or> action = ''SUCCESS'' \<and> (\<exists>ev \<in> set evs'. acknowledges J ev (event_of m))) \<and>
    ((\<forall>ev \<in> set evs'. posts_through J ev) \<longrightarrow> set tried \<subseteq> set (confirmed s'))"
proof -
  have "station_inv (NewStationServer url)" by (simp add: station_inv_def) (simp add: NewStationServer_def)
  then have "station_inv s" using station_keeps_run [OF assms(1)] by (simp add: station_keeps_def)
  then obtain tried where t: "answered_for J evs' s s' tried"
    using station_keeps_run [OF assms(2)] by (auto simp: station_keeps_def)
  have "e \<in> tracked s' \<or> (\<exists>report \<in> set tried. report_event report = e)"
    using t assms(3) unfolding answered_for_def by blast
  then show ?thesis using t by (intro exI [of _ tried]) (simp add: answered_for_def)
qed

definition example_station_json :: station_json where
  "example_station_json =
     \<lparr>decode_drone = Some, marshal_direct = (\<lambda>url. url), decode_pulled = (\<lambda>body. Some (example_mission body False 1)),
      marshal_pulled = event_of, decode_ack = (\<lambda>body. (body, [])),
      marshal_resolve = (\<lambda>action m. Some (event_of m))\<rparr>"

definition example_pop :: "string \<Rightarrow> nat \<Rightarrow> attempt" where
  "example_pop url i = Answer 200 ''event-0001''"

definition example_station :: StationServer where
  "example_station =
     (NewStationServer ''http://b'')\<lparr>RegisteredDrones := [''d1'' \<mapsto> 0],
        st_Radar := MarkInFlight 0 (NewInFlightManager (New 10)) (example_mission ''event-0001'' False 1) (10 * Second)\<rparr>"

lemma example_station_run:
  "station_run example_station_json (NewStationServer ''http://b'') [SRegister 0 ''h'' ''d1'', SPull example_pop 0 ''d1''] =
     Returned example_station ()"
  by (simp add: example_station_def handleRegister_def handleMissionPull_def example_station_json_def example_pop_def
      recovered_out_state NewStationServer_def GetJSON_def NewHTTPClient_def request_loop.simps(2) get_retryable_def
      read_answer_def example_mission_def eval_nat_numeral)

definition example_post :: post_net where
  "example_post url body i = (if i = 0 then NoConnection else Answer 200 [])"

lemma example_post_accepted: "post_resolve example_station_json (NewHTTPClient (2 * Second)) example_post url action m"
  by (simp add: post_resolve_def example_station_json_def PostJSON_def NewHTTPClient_def example_post_def eval_nat_numeral
      request_loop.simps(2) post_retryable_def read_answer_def)

theorem station_reports_every_mission_witness:
  "\<exists>s'. station_run example_station_json example_station [SSweep (11 * Second) [''event-0001''], SFallback example_post] = Returned s' () \<and>
     (''event-0001'' \<in> tracked s' \<or> (\<exists>report \<in> set (confirmed s'). report_event report = ''event-0001''))"
proof -
  let ?evs = "[SSweep (11 * Second) [''event-0001''], SFallback example_post]" and ?m = "example_mission ''event-0001'' False 1"
  have t: "''event-0001'' \<in> tracked example_station"
    by (simp add: example_station_def tracked_def MarkInFlight_def example_mission_def)
  have "sweep (11 * Second) [''event-0001''] (st_Radar example_station) = Returned \<lparr>records = Map.empty, rq = Enqueue (New 10) ?m\<rparr> ()"
    by (simp add: example_station_def sweep_def MarkInFlight_def NewInFlightManager_def example_mission_def loggable_def fun_eq_iff)
  moreover obtain q where "Dequeue (Enqueue (New 10) ?m) = (q, ?m, True)"
    using pq.dequeue_nonempty [of "Enqueue (New 10) ?m"] pq.dequeue_some [of "Enqueue (New 10) ?m"]
    by (fastforce simp: pq.invar_enqueue pq.contents_enqueue)
  ultimately obtain s' where s': "station_run example_station_json example_station ?evs = Returned s' ()"
    by (simp add: fallback_tick_def example_mission_def loggable_def)
  have "posts_through example_station_json (SFallback example_post)"
    unfolding posts_through.simps by (intro allI) (rule example_post_accepted)
  then have "\<forall>ev \<in> set ?evs. posts_through example_station_json ev" by simp
  with station_reports_every_mission [OF example_station_run s' t] s' show ?thesis by blast
qed

end
