(* ===== verification/Drone.thy ===== *)
theory Drone
  imports Ledger_Client
begin

text \<open>
  The drone of \<open>src/cmd/drone/main.go\<close>. Its calls to the station and the ledger are functions of the
  network; a flight is a step relation of the two goroutines of \<open>executeMission\<close>, the one that waits for
  the timer and the heartbeat that renews the lease, with their two unbuffered channels. The lemmas
  say how a flight ends, depending on the renewals that failed, and when it hangs.
\<close>

section \<open>State\<close>

record Drone =
  ID :: string
  DiscoveryURL :: string
  ActiveStationURL :: string
  CometURL :: string
  d_HTTPClient :: HTTPClient
  IsRegistered :: bool

definition NewDrone :: "string \<Rightarrow> string \<Rightarrow> string \<Rightarrow> Drone" where
  "NewDrone droneID stationURL cometURL =
     \<lparr>ID = droneID, DiscoveryURL = stationURL, ActiveStationURL = [], CometURL = cometURL,
      d_HTTPClient = NewHTTPClient (2 * Second), IsRegistered = False\<rparr>"

text \<open>What the JSON library makes of the drone's messages.\<close>

record drone_json =
  marshal_register :: "string \<Rightarrow> bytes"
  decode_direct :: "bytes \<Rightarrow> string option"
  decode_mission :: "bytes \<Rightarrow> Mission option"
  marshal_ack :: "string \<Rightarrow> string \<Rightarrow> bytes"
  marshal_report :: "string \<Rightarrow> string \<Rightarrow> int \<Rightarrow> int \<Rightarrow> string \<Rightarrow> int \<Rightarrow> bytes"

section \<open>Calls\<close>

definition register :: "drone_json \<Rightarrow> network \<Rightarrow> Drone \<Rightarrow> Drone" where
  "register J net d =
     (let url = DiscoveryURL d @ ''/api/drone/register''; payload = marshal_register J (ID d)
      in case fst (PostJSON (d_HTTPClient d) (Some payload) (net_post net url payload) (Some (decode_direct J))) of
           Inr (Some directURL) \<Rightarrow> if directURL \<noteq> [] then d\<lparr>ActiveStationURL := directURL, IsRegistered := True\<rparr> else d
         | _ \<Rightarrow> d)"

definition pullMission :: "drone_json \<Rightarrow> network \<Rightarrow> Drone \<Rightarrow> Mission \<times> bool" where
  "pullMission J net d =
     (let url = ActiveStationURL d @ ''/api/mission/pull?drone_id='' @ ID d
      in case fst (GetJSON (d_HTTPClient d) (net_get net url) (Some (decode_mission J))) of
           Inr (Some mission) \<Rightarrow> if event_of mission = [] then (mission, False) else (mission, True)
         | _ \<Rightarrow> (zero_Mission, False))"

text \<open>The request \<open>sendAck\<close> posts; its result is ignored.\<close>

definition sendAck :: "drone_json \<Rightarrow> Drone \<Rightarrow> string \<Rightarrow> string \<times> bytes" where
  "sendAck J d eventID = (ActiveStationURL d @ ''/api/mission/ack'', marshal_ack J eventID (ID d))"

text \<open>\<open>Time.Unix\<close>: the whole seconds since 1970, which lies 719162 days after the zero instant.\<close>

definition Unix :: "instant \<Rightarrow> int" where
  "Unix t = (t - 719162 * 86400 * Second) div Second"

text \<open>The drone has its own copy of the broker's function; the two sign alike.\<close>

definition drone_SignTransaction :: "'sk ed25519 \<Rightarrow> string \<Rightarrow> string \<Rightarrow> string \<Rightarrow> string" where
  "drone_SignTransaction E nationID txType eventID =
     (let seed = seed_of nationID;
          privKey = NewKeyFromSeed E seed;
          message = txType @ nationID @ eventID;
          signatureBytes = Sign E privKey message
      in hex_EncodeToString signatureBytes)"

lemma drone_signs_alike [simp]: "drone_SignTransaction = SignTransaction"
  by (simp add: fun_eq_iff drone_SignTransaction_def SignTransaction_def)

definition drone_report_tx :: "'sk ed25519 \<Rightarrow> drone_json \<Rightarrow> instant \<Rightarrow> Drone \<Rightarrow> Mission \<Rightarrow> duration \<Rightarrow> Transaction" where
  "drone_report_tx E J now d mission flightTime =
     (let data = Payload mission;
          reportBytes = marshal_report J (ID d) (SensorID data) (SectorID data) (flightTime div Millisecond) ''NEUTRALIZED'' (Unix now)
      in \<lparr>tx_Type = ''SAVE_REPORT'', tx_NationID = NationID data, tx_EventID = EventID data,
          tx_Signature = drone_SignTransaction E (NationID data) ''SAVE_REPORT'' (EventID data), tx_Payload = reportBytes\<rparr>)"

text \<open>The value says whether the ledger took the transaction in; the log line of a success shows the event.\<close>

definition saveReportToLedger ::
    "'sk ed25519 \<Rightarrow> drone_json \<Rightarrow> rpc_json \<Rightarrow> network \<Rightarrow> instant \<Rightarrow> Drone \<Rightarrow> Mission \<Rightarrow> duration \<Rightarrow> (Drone, bool) outcome" where
  "saveReportToLedger E J R net now d mission flightTime =
     (let txBytes = marshal_tx R (drone_report_tx E J now d mission flightTime);
          rpcPayload = marshal_rpc R 1 ''broadcast_tx_sync'' (base64_EncodeToString txBytes)
      in case fst (PostJSON (d_HTTPClient d) (Some rpcPayload) (net_post net (CometURL d) rpcPayload) (None :: (bytes \<Rightarrow> unit option) option)) of
           Inl err \<Rightarrow> Returned d False
         | Inr _ \<Rightarrow> bind_outcome (log_prefix8 d (event_of mission)) (\<lambda>d _. Returned d True))"

section \<open>A flight\<close>

text \<open>
  The caller waits in its \<open>select\<close>, is blocked sending on \<open>doneChan\<close>, or has returned. The heartbeat waits
  in its \<open>select\<close> with its count of failures, is renewing the lease, is blocked sending on
  \<open>abortChan\<close>, or has returned.
\<close>

datatype pilot = Flying | SendingDone | Landed bool

datatype heartbeat = Beating nat | Renewing nat | SendingAbort | Stopped

record flight =
  pilot :: pilot
  beat :: heartbeat

definition take_off :: flight where
  "take_off = \<lparr>pilot = Flying, beat = Beating 0\<rparr>"

text \<open>What the heartbeat does with the answer of a renewal.\<close>

definition after_renewal :: "bool \<Rightarrow> nat \<Rightarrow> heartbeat" where
  "after_renewal failed consecutiveFailures =
     (if failed then
        let n = consecutiveFailures + 1 in if 3 \<le> n then SendingAbort else Beating n
      else Beating 0)"

text \<open>
  A step of the two goroutines; its label is the answers of renewals it holds, failed or not. \<open>timer\<close> is the end
  of the flight time, \<open>finish\<close> the heartbeat receiving from \<open>doneChan\<close>, \<open>abort\<close> the caller receiving from \<open>abortChan\<close>.
\<close>

inductive flight_step :: "flight \<Rightarrow> bool list \<Rightarrow> flight \<Rightarrow> bool" where
  tick: "beat f = Beating n \<Longrightarrow> flight_step f [] (f\<lparr>beat := Renewing n\<rparr>)"
| renewal: "beat f = Renewing n \<Longrightarrow> flight_step f [failed] (f\<lparr>beat := after_renewal failed n\<rparr>)"
| abort: "pilot f = Flying \<Longrightarrow> beat f = SendingAbort \<Longrightarrow> flight_step f [] (f\<lparr>pilot := Landed False, beat := Stopped\<rparr>)"
| timer: "pilot f = Flying \<Longrightarrow> flight_step f [] (f\<lparr>pilot := SendingDone\<rparr>)"
| finish: "pilot f = SendingDone \<Longrightarrow> beat f = Beating n \<Longrightarrow> flight_step f [] (f\<lparr>pilot := Landed True, beat := Stopped\<rparr>)"

inductive_cases flight_stepE: "flight_step f rs g"

inductive flight_run :: "flight \<Rightarrow> bool list \<Rightarrow> flight \<Rightarrow> bool" where
  stay: "flight_run f [] f"
| go: "flight_run f rs g \<Longrightarrow> flight_step g rs' h \<Longrightarrow> flight_run f (rs @ rs') h"

lemma flight_run_append: "flight_run g rs' h \<Longrightarrow> flight_run f rs g \<Longrightarrow> flight_run f (rs @ rs') h"
  by (induction rule: flight_run.induct) (auto simp flip: append_assoc intro: flight_run.go)

lemmas flight_step_run = flight_run.go [OF flight_run.stay, simplified]

text \<open>The mutual wait: each goroutine is blocked on a channel only the other one reads.\<close>

definition mutual_wait :: flight where
  "mutual_wait = \<lparr>pilot = SendingDone, beat = SendingAbort\<rparr>"

text \<open>Three renewals in a row have failed.\<close>

definition lost_signal :: "bool list \<Rightarrow> bool" where
  "lost_signal rs \<longleftrightarrow> (\<exists>xs ys. rs = xs @ [True, True, True] @ ys)"

definition failures_at_end :: "bool list \<Rightarrow> nat" where
  "failures_at_end rs = length (takeWhile (\<lambda>failed. failed) (rev rs))"

lemma failures_at_end_simps [simp]:
  "failures_at_end [] = 0" "failures_at_end (rs @ [True]) = Suc (failures_at_end rs)" "failures_at_end (rs @ [False]) = 0"
  by (simp_all add: failures_at_end_def)

lemma two_failures: "2 \<le> failures_at_end rs \<longleftrightarrow> (\<exists>xs. rs = xs @ [True, True])"
proof (cases rs rule: rev_cases)
  case (snoc ys y)
  show ?thesis by (cases ys rule: rev_cases; cases y) (auto simp: snoc failures_at_end_def split: if_splits)
qed simp

lemma lost_signal_snoc: "lost_signal (rs @ [failed]) \<longleftrightarrow> lost_signal rs \<or> failed \<and> 2 \<le> failures_at_end rs"
proof
  assume "lost_signal (rs @ [failed])"
  then obtain xs ys where e: "rs @ [failed] = xs @ [True, True, True] @ ys" by (auto simp: lost_signal_def)
  show "lost_signal rs \<or> failed \<and> 2 \<le> failures_at_end rs"
  proof (cases ys rule: rev_cases)
    case Nil
    then have "rs @ [failed] = (xs @ [True, True]) @ [True]" using e by simp
    then show ?thesis unfolding append1_eq_conv two_failures by blast
  next
    case (snoc zs z)
    then have "rs @ [failed] = (xs @ [True, True, True] @ zs) @ [z]" using e by simp
    then show ?thesis unfolding append1_eq_conv lost_signal_def by blast
  qed
next
  assume "lost_signal rs \<or> failed \<and> 2 \<le> failures_at_end rs"
  then show "lost_signal (rs @ [failed])"
  proof
    assume "lost_signal rs"
    then obtain xs ys where "rs = xs @ [True, True, True] @ ys" by (auto simp: lost_signal_def)
    then have "rs @ [failed] = xs @ [True, True, True] @ (ys @ [failed])" by simp
    then show ?thesis unfolding lost_signal_def by blast
  next
    assume "failed \<and> 2 \<le> failures_at_end rs"
    then obtain xs where "rs = xs @ [True, True]" "failed" by (auto simp: two_failures)
    then have "rs @ [failed] = xs @ [True, True, True] @ []" by simp
    then show ?thesis unfolding lost_signal_def by blast
  qed
qed

text \<open>What the two goroutines have made of the renewals so far.\<close>

definition flight_inv :: "bool list \<Rightarrow> flight \<Rightarrow> bool" where
  "flight_inv rs f \<longleftrightarrow>
     (case beat f of
        Beating n \<Rightarrow> n = failures_at_end rs \<and> \<not> lost_signal rs \<and> (\<forall>ok. pilot f \<noteq> Landed ok)
      | Renewing n \<Rightarrow> n = failures_at_end rs \<and> \<not> lost_signal rs \<and> (\<forall>ok. pilot f \<noteq> Landed ok)
      | SendingAbort \<Rightarrow> lost_signal rs \<and> (\<forall>ok. pilot f \<noteq> Landed ok)
      | Stopped \<Rightarrow> pilot f = Landed (\<not> lost_signal rs))"

lemma flight_inv_step:
  assumes "flight_inv rs f" "flight_step f rs' g"
  shows "flight_inv (rs @ rs') g"
  using assms(2)
proof (rule flight_stepE)
  fix n failed assume s: "rs' = [failed]" "g = f\<lparr>beat := after_renewal failed n\<rparr>" "beat f = Renewing n"
  then have "n = failures_at_end rs" "\<not> lost_signal rs" "\<forall>ok. pilot f \<noteq> Landed ok"
    using assms(1) by (simp_all add: flight_inv_def)
  then show ?thesis
    using s by (cases failed) (auto simp: flight_inv_def after_renewal_def lost_signal_snoc Let_def)
qed (use assms(1) in \<open>auto simp: flight_inv_def split: heartbeat.splits\<close>)

lemma flight_inv_run: "flight_run f rs' g \<Longrightarrow> flight_inv rs f \<Longrightarrow> flight_inv (rs @ rs') g"
  by (induction rule: flight_run.induct) (auto simp flip: append_assoc intro: flight_inv_step)

lemma flight_inv_reached: "flight_run take_off rs f \<Longrightarrow> flight_inv rs f"
  using flight_inv_run [of take_off rs f "[]"] by (simp add: flight_inv_def take_off_def lost_signal_def)

lemma stuck_iff: "(\<forall>rs g. \<not> flight_step f rs g) \<longleftrightarrow> (beat f = Stopped \<or> beat f = SendingAbort) \<and> pilot f \<noteq> Flying"
proof (cases "beat f")
  case (Beating n)
  then show ?thesis using tick by auto
next
  case (Renewing n)
  then show ?thesis using renewal [OF Renewing, of True] by auto
qed (cases "pilot f"; auto intro: timer elim: flight_stepE)+

text \<open>While the signal is not lost, the flight can still be finished.\<close>

lemma can_land:
  assumes "beat f = Beating n" "\<forall>ok. pilot f \<noteq> Landed ok"
  shows "\<exists>rs g. flight_run f rs g \<and> pilot g = Landed True"
proof -
  have finished: "\<exists>g. flight_step h [] g \<and> pilot g = Landed True" if "pilot h = SendingDone" "beat h = Beating n" for h
    using finish [OF that] by fastforce
  show ?thesis
  proof (cases "pilot f")
    case Flying
    obtain g where g: "flight_step (f\<lparr>pilot := SendingDone\<rparr>) [] g" "pilot g = Landed True" using finished [of "f\<lparr>pilot := SendingDone\<rparr>"] assms(1) by auto
    then show ?thesis using flight_run.go [OF flight_step_run [OF timer [OF Flying]] g(1)] by auto
  next
    case SendingDone
    then show ?thesis using finished assms(1) flight_step_run by blast
  qed (use assms(2) in simp)
qed

section \<open>The agent's loop\<close>

text \<open>
  One turn of the loop of \<open>main\<close>. \<open>flew\<close> is the result of the flight, success and duration. Beside the drone,
  the state holds the acknowledgements posted in this turn; the value says whether a report was taken in. The
  first log line of \<open>executeMission\<close> shows the event.
\<close>

definition drone_turn ::
    "'sk ed25519 \<Rightarrow> drone_json \<Rightarrow> rpc_json \<Rightarrow> network \<Rightarrow> instant \<Rightarrow> bool \<times> duration \<Rightarrow> Drone
      \<Rightarrow> (Drone \<times> (string \<times> bytes) list, bool) outcome" where
  "drone_turn E J R net now flew d =
     (if \<not> IsRegistered d then Returned (register J net d, []) False
      else
        let (mission, found) = pullMission J net d
        in if \<not> found then Returned (d, []) False
           else
             bind_outcome (log_prefix8 (d, []) (event_of mission)) (\<lambda>_ _.
               let (success, flightTime) = flew
               in if success then
                    let acks = [sendAck J d (event_of mission)]
                    in on_state (\<lambda>d. (d, acks)) (saveReportToLedger E J R net now d mission flightTime)
                  else Returned (d\<lparr>IsRegistered := False, ActiveStationURL := []\<rparr>, []) False))"

text \<open>A drone is registered exactly when it has the address of a station.\<close>

lemma drone_turn_session:
  assumes "IsRegistered d \<longleftrightarrow> ActiveStationURL d \<noteq> []" "out_state (drone_turn E J R net now flew d) = (d', acks)"
  shows "IsRegistered d' \<longleftrightarrow> ActiveStationURL d' \<noteq> []"
proof -
  have save: "out_state (saveReportToLedger E J R net now d m t) = d" for m t
    by (auto simp: saveReportToLedger_def Let_def split: sum.split)
  show ?thesis
    using assms save
    by (cases "loggable (event_of (fst (pullMission J net d)))")
      (auto simp: drone_turn_def register_def Let_def split: prod.splits sum.splits option.splits if_splits)
qed

section \<open>Properties\<close>

text \<open>A drone's report is archived: the transaction a drone builds for a mission of a nation of the consortium
  passes the ledger's barrier, is stored under its event, and leaves every balance as it was.\<close>

lemma drone_report_archived:
  assumes "leveldb_ok L" "ed25519_ok E" "NationID (Payload mission) \<in> consortium" "loggable (event_of mission)"
    and "unmarshal b = Some (drone_report_tx E J now d mission flightTime)"
    and "''SAVE_REPORT'' @ ''_'' @ event_of mission \<notin> applied (ledger_abs L db)"
  shows "\<exists>db'. deliver_tx E L unmarshal db b = Returned db' (result 0 []) \<and>
    bal (ledger_abs L db') = bal (ledger_abs L db) \<and>
    reps (ledger_abs L db') (''SAVE_REPORT'' @ ''_'' @ event_of mission) = Some b"
proof -
  obtain p where p: "drone_report_tx E J now d mission flightTime = signed_tx E ''SAVE_REPORT'' (NationID (Payload mission)) (event_of mission) p"
    by (simp add: drone_report_tx_def Let_def)
  show ?thesis
    using signed_tx_applied [where unmarshal = unmarshal, OF assms(1-4) assms(5) [unfolded p] assms(6)]
    by (auto simp: spec_apply_def is_spend_def op_key_def)
qed

definition example_target :: Mission where
  "example_target = zero_Mission\<lparr>Payload := example_data ''event-0001''\<rparr>"

text \<open>C34. What becomes of a flight depends on the lease renewals alone. Whatever the two goroutines of \<open>executeMission\<close>
  have done so far: the flight can still end in success exactly when no three renewals in a row have failed; it has
  been aborted only if three in a row failed, and then a pilot still in flight can receive the abortion at once. A flight
  that can do nothing more has landed or is in the mutual wait, where it hangs for ever; it is there exactly when the
  pilot has turned to reporting the end of the flight and three renewals in a row have failed.\<close>

theorem flight_outcome:
  assumes "flight_run take_off rs f"
  shows "((\<exists>rs' g. flight_run f rs' g \<and> pilot g = Landed True) \<longleftrightarrow> \<not> lost_signal rs) \<and>
    (pilot f = Landed False \<longrightarrow> lost_signal rs) \<and>
    (lost_signal rs \<and> pilot f = Flying \<longrightarrow> (\<exists>g. flight_step f [] g \<and> pilot g = Landed False)) \<and>
    ((\<forall>rs' g. \<not> flight_step f rs' g) \<longleftrightarrow> (\<exists>ok. pilot f = Landed ok) \<or> f = mutual_wait) \<and>
    (f = mutual_wait \<longleftrightarrow> lost_signal rs \<and> pilot f = SendingDone)"
proof -
  note inv = flight_inv_reached [OF assms]
  have "\<not> lost_signal rs" if "flight_run f rs' g" "pilot g = Landed True" for rs' g
  proof
    assume "lost_signal rs"
    then have "lost_signal (rs @ rs')" unfolding lost_signal_def by (metis append_assoc)
    then show False using flight_inv_run [OF that(1) inv] that(2) by (auto simp: flight_inv_def split: heartbeat.splits)
  qed
  moreover have "\<exists>rs' g. flight_run f rs' g \<and> pilot g = Landed True" if "\<not> lost_signal rs"
  proof (cases "beat f")
    case (Renewing n)
    obtain rs' g where "flight_run (f\<lparr>beat := Beating 0\<rparr>) rs' g" "pilot g = Landed True"
      using can_land [of "f\<lparr>beat := Beating 0\<rparr>" 0] inv Renewing by (auto simp: flight_inv_def)
    moreover have "flight_run f [False] (f\<lparr>beat := Beating 0\<rparr>)"
      using flight_step_run [OF renewal [OF Renewing, of False]] by (simp add: after_renewal_def)
    ultimately show ?thesis using flight_run_append by blast
  qed (use inv that can_land flight_run.stay in \<open>fastforce simp: flight_inv_def\<close>)+
  moreover have "\<exists>g. flight_step f [] g \<and> pilot g = Landed False" if "lost_signal rs" "pilot f = Flying"
    using inv that abort [of f] by (cases "beat f") (fastforce simp: flight_inv_def)+
  moreover have "(\<forall>rs' g. \<not> flight_step f rs' g) \<longleftrightarrow> (\<exists>ok. pilot f = Landed ok) \<or> f = mutual_wait"
    unfolding stuck_iff using inv by (cases f; cases "pilot f") (auto simp: flight_inv_def mutual_wait_def split: heartbeat.splits)
  ultimately show ?thesis
    using inv by (cases f; cases "beat f") (auto simp: flight_inv_def mutual_wait_def)
qed

text \<open>The timer fires while the third renewal is under way, and it fails like the two before.\<close>

lemma example_hang: "flight_run take_off [True, True, True] mutual_wait"
proof -
  have failed: "flight_run take_off (rs @ [True]) (f\<lparr>beat := after_renewal True n\<rparr>)" if "flight_run take_off rs f" "beat f = Beating n" for rs f n
    using flight_run.go [OF flight_run.go [OF that(1) tick [OF that(2)]] renewal [of _ n True]] by simp
  have 1: "flight_run take_off [True] \<lparr>pilot = Flying, beat = Beating 1\<rparr>"
    using failed [OF flight_run.stay, of 0] by (simp add: take_off_def after_renewal_def Let_def)
  have 2: "flight_run take_off [True, True] \<lparr>pilot = Flying, beat = Beating 2\<rparr>"
    using failed [OF 1, of 1] by (simp add: after_renewal_def Let_def numeral_2_eq_2)
  have 3: "flight_run take_off [True, True] \<lparr>pilot = Flying, beat = Renewing 2\<rparr>"
    using flight_run.go [OF 2 tick [of _ 2]] by simp
  have 4: "flight_run take_off [True, True] \<lparr>pilot = SendingDone, beat = Renewing 2\<rparr>"
    using flight_run.go [OF 3 timer] by simp
  show ?thesis
    using flight_run.go [OF 4 renewal [of _ 2 True]] by (simp add: after_renewal_def mutual_wait_def Let_def)
qed

theorem flight_outcome_witness:
  "flight_run take_off [True, True, True] mutual_wait \<and> \<not> (\<exists>rs g. flight_run mutual_wait rs g \<and> pilot g = Landed True) \<and>
   (\<forall>rs g. \<not> flight_step mutual_wait rs g)"
proof -
  have "lost_signal [True, True, True]" unfolding lost_signal_def by (rule exI [of _ "[]"]) simp
  with flight_outcome [OF example_hang] example_hang show ?thesis by blast
qed

end
