(* ===== verification/Sensor.thy ===== *)
theory Sensor
  imports Go_Lib
begin

text \<open>
  The sensor simulator: \<open>src/internal/domain/sensor/telemetry.go\<close>, \<open>src/internal/sensor/load_generator.go\<close> and the loops of
  \<open>src/cmd/sensor/main.go\<close>. Random draws, fresh UUIDs and the answers of the DNS are arguments; SHA-256 and the JSON
  encoder are parameters. The type of \<open>float64\<close> values is any linear order, since the source only
  compares them.
\<close>

section \<open>Telemetry\<close>

record Telemetry =
  tm_EventID :: string
  tm_SensorID :: string
  tm_SectorID :: int
  tm_IsRequisition :: bool
  tm_IsCritical :: bool
  tm_NationID :: string
  tm_Signature :: string

definition NewTelemetry :: "string \<Rightarrow> string \<Rightarrow> int \<Rightarrow> bool \<Rightarrow> bool \<Rightarrow> string \<Rightarrow> string \<Rightarrow> Telemetry" where
  "NewTelemetry eventID sensorID sectorID isRequisition isCritical nationID signature =
     \<lparr>tm_EventID = eventID, tm_SensorID = sensorID, tm_SectorID = sectorID, tm_IsRequisition = isRequisition,
      tm_IsCritical = isCritical, tm_NationID = nationID, tm_Signature = signature\<rparr>"

section \<open>The load generator\<close>

record 'f Engine =
  TotalSectors :: int
  Frequency :: duration
  ThreatProbability :: 'f
  CriticalProbability :: 'f
  Nations :: "string list"

text \<open>One set of draws: two floats, two integers for \<open>rand.Intn\<close>, and a UUID.\<close>

record 'f draws =
  dr_threat :: 'f
  dr_sector :: nat
  dr_nation :: nat
  dr_critical :: 'f
  dr_uuid :: string

definition Intn :: "int \<Rightarrow> nat \<Rightarrow> go_panic + int" where
  "Intn n r = (if n \<le> 0 then Inl InvalidArgument else Inr (int r mod n))"

text \<open>\<open>fmt.Sprintf("sensor-sec-%02d", n)\<close> for a positive number.\<close>

definition sensor_name :: "int \<Rightarrow> string" where
  "sensor_name n = ''sensor-sec-'' @ (if n < 10 then ''0'' else []) @ Itoa n"

definition fire :: "(bytes \<Rightarrow> bytes) \<Rightarrow> ('f :: linorder) Engine \<Rightarrow> 'f draws \<Rightarrow> Telemetry list \<Rightarrow> (Telemetry list, unit) outcome" where
  "fire sha256 e dr out =
     (let isThreat = dr_threat dr < ThreatProbability e
      in case Intn (TotalSectors e) (dr_sector dr) of
           Inl p \<Rightarrow> Panicked out p
         | Inr r \<Rightarrow>
             let sectorID = r + 1; sensorID = sensor_name sectorID
             in case Intn (int (length (Nations e))) (dr_nation dr) of
                  Inl p \<Rightarrow> Panicked out p
                | Inr nationIndex \<Rightarrow>
                    let nationID = Nations e ! nat nationIndex;
                        eventID = (if isThreat then dr_uuid dr else ''N/A'');
                        isCritical = (isThreat \<and> dr_critical dr < CriticalProbability e);
                        signature = (if isThreat then hex_EncodeToString (sha256 (eventID @ '':'' @ nationID @ '':secret-key'')) else []);
                        payload = NewTelemetry eventID sensorID sectorID isThreat isCritical nationID signature
                    in Returned (if length out < 500 then out @ [payload] else out) ())"

section \<open>Discovery and transmission\<close>

definition watchBrokerDNS_tick :: "string list option \<Rightarrow> string list \<times> string \<Rightarrow> string list \<times> string" where
  "watchBrokerDNS_tick ips s =
     (case ips of
        None \<Rightarrow> s
      | Some addrs \<Rightarrow>
          if addrs = [] then s
          else let ipStrs = sort addrs; currentState = Join ipStrs CHR '',''
               in if currentState \<noteq> snd s then (ipStrs, currentState) else s)"

text \<open>The datagrams that leave; every error is ignored.\<close>

definition sendToBroker :: "udp_result \<Rightarrow> string \<Rightarrow> bytes \<Rightarrow> (string \<times> bytes) list" where
  "sendToBroker r brokerIP data = (case r of Sent \<Rightarrow> [(brokerIP @ '':9000'', data)] | _ \<Rightarrow> [])"

text \<open>One payload goes to every known broker; a payload that cannot be encoded is skipped.\<close>

definition ingress_turn ::
    "(Telemetry \<Rightarrow> bytes option) \<Rightarrow> (string \<Rightarrow> udp_result) \<Rightarrow> string list \<Rightarrow> Telemetry list \<Rightarrow> Telemetry list \<times> (string \<times> bytes) list" where
  "ingress_turn marshal fate brokerList chan =
     (case chan of
        [] \<Rightarrow> ([], [])
      | payload # rest \<Rightarrow>
          (case marshal payload of
             None \<Rightarrow> (rest, [])
           | Some data \<Rightarrow> (rest, concat (map (\<lambda>brokerIP. sendToBroker (fate brokerIP) brokerIP data) brokerList))))"

section \<open>What the generator makes\<close>

lemma Intn_range: "Intn n r = Inr i \<Longrightarrow> 0 \<le> i \<and> i < n"
  by (auto simp: Intn_def split: if_splits)

text \<open>
  With at least one sector and one nation it never panics, and what it emits is well formed: a sector of the
  simulation, a nation of the consortium, a request exactly when it is a threat, critical only then.
\<close>

lemma fire_emits:
  assumes "0 < TotalSectors e" "Nations e \<noteq> []" "length out < 500"
  shows "\<exists>t. fire sha256 e dr out = Returned (out @ [t]) () \<and>
    1 \<le> tm_SectorID t \<and> tm_SectorID t \<le> TotalSectors e \<and> tm_SensorID t \<noteq> [] \<and> tm_NationID t \<in> set (Nations e) \<and>
    (tm_IsRequisition t \<longleftrightarrow> dr_threat dr < ThreatProbability e) \<and> (tm_IsCritical t \<longrightarrow> tm_IsRequisition t) \<and>
    tm_EventID t = (if tm_IsRequisition t then dr_uuid dr else ''N/A'')"
proof -
  obtain i j where i: "Intn (TotalSectors e) (dr_sector dr) = Inr i" and j: "Intn (int (length (Nations e))) (dr_nation dr) = Inr j"
    using assms by (auto simp: Intn_def)
  have "0 \<le> i" "i < TotalSectors e" "nat j < length (Nations e)"
    using Intn_range [OF i] Intn_range [OF j] by auto
  then show ?thesis using assms(3) i j by (auto simp: fire_def NewTelemetry_def sensor_name_def Let_def)
qed

end
