(* ===== verification/Wire.thy ===== *)
theory Wire
  imports Wire_Format Broker_Flow Station Drone Sensor
begin

text \<open>
  The messages of the program, with the codecs the components take as parameters given by the JSON
  library: each of the definitions below is the composition of a struct's JSON form with
  \<open>json.Marshal\<close>, \<open>json.Unmarshal\<close>, \<open>Encoder.Encode\<close> or \<open>Decoder.Decode\<close>, as the source composes them. A map is written with its
  keys in order. The results that span components are then restated for these codecs: what one
  process writes is what the next one reads.
\<close>

section \<open>Transactions and the node's answers\<close>

definition go_unmarshal_tx :: "bytes \<Rightarrow> Transaction option" where
  "go_unmarshal_tx = Unmarshal (fill_struct Transaction_fields) zero_Transaction"

definition json_rpc :: "nat \<Rightarrow> string \<Rightarrow> string \<Rightarrow> json" where
  "json_rpc i verb tx =
     JObj [(''id'', JNum (uint_text i)), (''jsonrpc'', JStr ''2.0''), (''method'', JStr verb), (''params'', JObj [(''tx'', JStr tx)])]"

definition CometRPC_fields :: "CometRPCResponse fields" where
  "CometRPC_fields =
     [(''result'', nested
         [(''code'', scalar as_int (\<lambda>v r. r\<lparr>rpc_Code := v\<rparr>)), (''log'', scalar as_string (\<lambda>v r. r\<lparr>rpc_Log := v\<rparr>))]
         (\<lambda>r. r) (\<lambda>v r. v))]"

definition ABCIQuery_fields :: "ABCIQueryResponse fields" where
  "ABCIQuery_fields =
     [(''result'', nested
         [(''response'', nested
             [(''code'', scalar (as_uint 32) (\<lambda>v r. r\<lparr>abci_Code := v\<rparr>)), (''value'', fill_bytes (\<lambda>v r. r\<lparr>abci_Value := v\<rparr>)),
              (''log'', scalar as_string (\<lambda>v r. r\<lparr>abci_Log := v\<rparr>))]
             (\<lambda>r. r) (\<lambda>v r. v))]
         (\<lambda>r. r) (\<lambda>v r. v))]"

definition go_rpc_json :: rpc_json where
  "go_rpc_json =
     \<lparr>marshal_tx = (\<lambda>tx. Marshal (json_of_Transaction tx)),
      marshal_rpc = (\<lambda>i verb tx. Marshal (json_rpc i verb tx)),
      decode_rpc = Decode (fill_struct CometRPC_fields) \<lparr>rpc_Code = 0, rpc_Log = []\<rparr>,
      decode_abci = Decode (fill_struct ABCIQuery_fields) \<lparr>abci_Code = 0, abci_Value = [], abci_Log = []\<rparr>\<rparr>"

section \<open>The broker's messages\<close>

text \<open>\<open>b, _ := json.Marshal(v)\<close>: an error leaves the slice empty; an encoder writes nothing then.\<close>

definition marshalled :: "json option \<Rightarrow> bytes" where
  "marshalled v = (case v of None \<Rightarrow> [] | Some j \<Rightarrow> Marshal j)"

definition encoded :: "json option \<Rightarrow> bytes" where
  "encoded v = (case v of None \<Rightarrow> [] | Some j \<Rightarrow> Encode j)"

definition json_sync :: "time_codec \<Rightarrow> string \<Rightarrow> string \<Rightarrow> Mission \<Rightarrow> json option" where
  "json_sync T action e m =
     map_option (\<lambda>j. JObj [(''action'', JStr action), (''event_id'', JStr e), (''mission'', j)]) (json_of_Mission T m)"

definition sync_fields :: "time_codec \<Rightarrow> (string \<times> string \<times> Mission) fields" where
  "sync_fields T =
     [(''action'', scalar as_string (\<lambda>v (a, e, m). (v, e, m))), (''event_id'', scalar as_string (\<lambda>v (a, e, m). (a, v, m))),
      (''mission'', nested (Mission_fields T) (\<lambda>(a, e, m). m) (\<lambda>v (a, e, m). (a, e, v)))]"

definition json_resolve :: "time_codec \<Rightarrow> string \<Rightarrow> Mission \<Rightarrow> json option" where
  "json_resolve T action m = map_option (\<lambda>j. JObj [(''action'', JStr action), (''mission'', j)]) (json_of_Mission T m)"

definition resolve_fields :: "time_codec \<Rightarrow> (string \<times> Mission) fields" where
  "resolve_fields T =
     [(''action'', scalar as_string (\<lambda>v (a, m). (v, m))),
      (''mission'', nested (Mission_fields T) snd (\<lambda>v (a, m). (a, v)))]"

definition json_health :: "time_codec \<Rightarrow> string \<Rightarrow> instant \<Rightarrow> json option" where
  "json_health T status t = map_option (\<lambda>x. JObj [(''status'', JStr status), (''timestamp'', JStr x)]) (time_Marshal T t)"

text \<open>The texts of errors, and whether a body is a JSON object of any members, stay parameters.\<close>

definition go_broker_json :: "time_codec \<Rightarrow> (bytes \<Rightarrow> string option) \<Rightarrow> (query_error \<Rightarrow> string) \<Rightarrow> broker_json" where
  "go_broker_json T object_error query_text =
     \<lparr>unmarshal_data = Unmarshal (fill_struct SensorData_fields) zero_SensorData,
      marshal_data = (\<lambda>d. Marshal (json_of_SensorData d)),
      marshal_sync = (\<lambda>action e m. marshalled (json_sync T action e m)),
      decode_sync = Decode (fill_struct (sync_fields T)) ([], [], zero_Mission),
      decode_resolve = Decode (fill_struct (resolve_fields T)) ([], zero_Mission),
      marshal_mission = (\<lambda>m. encoded (json_of_Mission T m)),
      decode_object = object_error,
      marshal_received = Encode (JObj [(''received'', JBool True)]),
      marshal_health = (\<lambda>status t. encoded (json_health T status t)),
      show_query_error = query_text\<rparr>"

section \<open>The station's and the drone's messages\<close>

definition drone_id_fields :: "string fields" where
  "drone_id_fields = [(''drone_id'', scalar as_string (\<lambda>v _. v))]"

definition ack_fields :: "(string \<times> string) fields" where
  "ack_fields = [(''event_id'', scalar as_string (\<lambda>v (e, d). (v, d))), (''drone_id'', scalar as_string (\<lambda>v (e, d). (e, v)))]"

definition go_station_json :: "time_codec \<Rightarrow> station_json" where
  "go_station_json T =
     \<lparr>decode_drone = Decode (fill_struct drone_id_fields) [],
      marshal_direct = (\<lambda>url. Encode (JObj [(''direct_url'', JStr url)])),
      decode_pulled = Decode (fill_struct (Mission_fields T)) zero_Mission,
      marshal_pulled = (\<lambda>m. encoded (json_of_Mission T m)),
      decode_ack = Decode_ignoring (fill_struct ack_fields) ([], []),
      marshal_resolve = (\<lambda>action m. map_option Marshal (json_resolve T action m))\<rparr>"

definition json_report :: "string \<Rightarrow> string \<Rightarrow> int \<Rightarrow> int \<Rightarrow> string \<Rightarrow> int \<Rightarrow> json" where
  "json_report droneID target sector durationMs status timestamp =
     JObj [(''drone_id'', JStr droneID), (''duration_ms'', JNum (Itoa durationMs)), (''sector'', JNum (Itoa sector)),
       (''status'', JStr status), (''target'', JStr target), (''timestamp'', JNum (Itoa timestamp))]"

definition go_drone_json :: "time_codec \<Rightarrow> drone_json" where
  "go_drone_json T =
     \<lparr>marshal_register = (\<lambda>i. Marshal (JObj [(''drone_id'', JStr i)])),
      decode_direct = Decode (fill_struct [(''direct_url'', scalar as_string (\<lambda>v _. v))]) [],
      decode_mission = Decode (fill_struct (Mission_fields T)) zero_Mission,
      marshal_ack = (\<lambda>e i. Marshal (JObj [(''drone_id'', JStr i), (''event_id'', JStr e)])),
      marshal_report = (\<lambda>droneID target sector durationMs status timestamp. Marshal (json_report droneID target sector durationMs status timestamp))\<rparr>"

section \<open>The sensor's packets and the state of the ledger\<close>

definition json_of_Telemetry :: "Telemetry \<Rightarrow> json" where
  "json_of_Telemetry t =
     JObj [(''event_id'', JStr (tm_EventID t)), (''sensor_id'', JStr (tm_SensorID t)), (''sector_id'', JNum (Itoa (tm_SectorID t))),
       (''is_requisition'', JBool (tm_IsRequisition t)), (''is_critical'', JBool (tm_IsCritical t)),
       (''nation_id'', JStr (tm_NationID t)), (''signature'', JStr (tm_Signature t))]"

text \<open>A map is written in the order of its keys.\<close>

definition json_of_map :: "('v \<Rightarrow> json) \<Rightarrow> (string \<rightharpoonup> 'v) \<Rightarrow> json" where
  "json_of_map f m = JObj (map (\<lambda>k. (k, f (the (m k)))) (sorted_list_of_set (dom m)))"

definition go_marshal_state :: "(string \<rightharpoonup> int) \<Rightarrow> (string \<rightharpoonup> string) \<Rightarrow> bytes" where
  "go_marshal_state balances reports =
     Marshal (JObj [(''balances'', json_of_map (\<lambda>b. JNum (Itoa b)) balances), (''reports'', json_of_map JStr reports)])"

section \<open>Transactions\<close>

lemma hextable_ascii: "n < 16 \<Longrightarrow> byte_val (hextable n) < 128"
  by (simp add: hextable_def byte_val_def)

lemma valid_hex: "valid_utf8 (hex_EncodeToString s)"
proof (rule valid_ascii, rule ballI)
  fix c assume "c \<in> set (hex_EncodeToString s)"
  then show "byte_val c < 128"
  proof (induction s)
    case (Cons b bs)
    have "(of_char b :: nat) < 16 * 16" using byte_val_bound [of b] by (simp add: byte_val_def)
    then have "of_char b div 16 < (16 :: nat)" by (rule less_mult_imp_div_less)
    then show ?case using Cons by (auto simp: hextable_ascii)
  qed simp
qed

lemma clean_valid_tx: "valid_tx tx \<Longrightarrow> clean_tx tx = tx"
  by (simp add: clean_tx_def valid_tx_def)

lemma unmarshal_marshal_tx: "go_unmarshal_tx (Marshal (json_of_Transaction tx)) = Some (clean_tx tx)"
  unfolding go_unmarshal_tx_def by (rule Unmarshal_Marshal) (simp_all add: writable_Transaction fill_Transaction)

lemma valid_kind: "valid_utf8 ''SPEND_CREDIT''" "valid_utf8 ''SAVE_REPORT''"
  by (rule valid_ascii, simp add: byte_val_def)+

lemma valid_spend_tx: "valid_data data \<Longrightarrow> valid_tx (spend_tx E data)"
  by (simp add: valid_tx_def valid_data_def spend_tx_def SignTransaction_def Let_def valid_hex valid_kind)

lemma spend_tx_read_back:
  "valid_data data \<Longrightarrow> go_unmarshal_tx (marshal_tx go_rpc_json (spend_tx E data)) = Some (spend_tx E data)"
  by (simp add: go_rpc_json_def unmarshal_marshal_tx clean_valid_tx valid_spend_tx)

section \<open>Packets\<close>

lemma packet_valid: "unmarshal_data (go_broker_json T f g) raw = Some data \<Longrightarrow> valid_data data"
  unfolding go_broker_json_def using upholds_decoded(1) [OF upholds_valid_data valid_zero(2)] by simp

lemma data_read_back: "valid_data d \<Longrightarrow> unmarshal_data (go_broker_json T f g) (marshal_data (go_broker_json T f g) d) = Some d"
  by (simp add: go_broker_json_def Unmarshal_Marshal writable_SensorData fill_SensorData)

section \<open>Gossip and station messages\<close>

lemma message_names [simp]: "to_valid ''action'' = ''action''" "to_valid ''mission'' = ''mission''" "to_valid ''drone_id'' = ''drone_id''"
  "to_valid ''direct_url'' = ''direct_url''"
  by (rule to_valid_ascii, simp add: byte_val_def)+

text \<open>A mission that can be written: well-formed strings, and a lease time \<open>MarshalJSON\<close> accepts.\<close>

definition sendable :: "time_codec \<Rightarrow> Mission \<Rightarrow> bool" where
  "sendable T m \<longleftrightarrow> time_ok T \<and> valid_mission m \<and> time_Marshal T (LeaseExpires m) \<noteq> None"

lemma sendable_json:
  assumes "sendable T m"
  obtains j where "json_of_Mission T m = Some j" "fill_struct (Mission_fields T) (clean j) zero_Mission = (m, True)" "writable 9999 j"
proof -
  obtain j where "json_of_Mission T m = Some j" using assms by (auto simp: sendable_def json_of_Mission_def)
  then show ?thesis using that fill_Mission writable_Mission assms by (auto simp: sendable_def)
qed

lemma sync_read_back:
  assumes "sendable T m" "valid_utf8 action" "valid_utf8 e"
  shows "decode_sync (go_broker_json T f g) (marshal_sync (go_broker_json T f g) action e m) = Some (action, e, m)"
proof -
  obtain j where j: "json_of_Mission T m = Some j" "fill_struct (Mission_fields T) (clean j) zero_Mission = (m, True)" "writable 9999 j"
    using assms(1) by (rule sendable_json)
  show ?thesis
    unfolding go_broker_json_def broker_json.simps marshalled_def json_sync_def j(1) option.map option.case
    by (rule Unmarshal_Marshal) (use assms(2,3) j(2,3) in \<open>simp_all add: sync_fields_def find_field_def nested_def\<close>)
qed

lemma resolve_read_back:
  assumes "sendable T m" "valid_utf8 action"
  shows "decode_resolve (go_broker_json T f g) (marshalled (json_resolve T action m)) = Some (action, m)"
proof -
  obtain j where j: "json_of_Mission T m = Some j" "fill_struct (Mission_fields T) (clean j) zero_Mission = (m, True)" "writable 9999 j"
    using assms(1) by (rule sendable_json)
  show ?thesis
    unfolding go_broker_json_def broker_json.simps marshalled_def json_resolve_def j(1) option.map option.case
    by (rule Unmarshal_Marshal) (use assms(2) j(2,3) in \<open>simp_all add: resolve_fields_def find_field_def nested_def\<close>)
qed

lemma writable_mono: "writable d j \<Longrightarrow> d \<le> d' \<Longrightarrow> writable d' j"
  by (induction d j arbitrary: d' rule: writable.induct) (auto simp: list_all_iff)

text \<open>A mission on its way from the broker to the station, and from there to the drone.\<close>

lemma pulled_read_back:
  assumes "sendable T m"
  shows "decode_pulled (go_station_json T) (marshal_mission (go_broker_json T f g) m) = Some m"
    "decode_mission (go_drone_json T) (marshal_pulled (go_station_json T) m) = Some m"
proof -
  obtain j where j: "json_of_Mission T m = Some j" "fill_struct (Mission_fields T) (clean j) zero_Mission = (m, True)" "writable 9999 j"
    using assms(1) by (rule sendable_json)
  have "Decode (fill_struct (Mission_fields T)) zero_Mission (Encode j) = Some m"
    by (rule Unmarshal_Marshal) (use j(2,3) writable_mono in auto)
  then show "decode_pulled (go_station_json T) (marshal_mission (go_broker_json T f g) m) = Some m"
    "decode_mission (go_drone_json T) (marshal_pulled (go_station_json T) m) = Some m"
    by (simp_all add: go_station_json_def go_broker_json_def go_drone_json_def encoded_def j(1))
qed

lemma ack_read_back: "decode_ack (go_station_json T) (marshal_ack (go_drone_json T) e i) = (to_valid e, to_valid i)"
  unfolding go_station_json_def go_drone_json_def station_json.simps drone_json.simps
  by (rule Unmarshal_Marshal) (simp_all add: ack_fields_def find_field_def)

lemma register_read_back:
  "decode_drone (go_station_json T) (marshal_register (go_drone_json T) i) = Some (to_valid i)"
  "decode_direct (go_drone_json T) (marshal_direct (go_station_json T) url) = Some (to_valid url)"
  unfolding go_station_json_def go_drone_json_def station_json.simps drone_json.simps
  by (rule Unmarshal_Marshal; simp add: drone_id_fields_def find_field_def)+

section \<open>Sensor packets\<close>

text \<open>The broker's view of a sensor's packet: the same fields, and no clock.\<close>

definition data_of_telemetry :: "Telemetry \<Rightarrow> SensorData" where
  "data_of_telemetry t =
     \<lparr>EventID = tm_EventID t, SensorID = tm_SensorID t, SectorID = tm_SectorID t, IsRequisition = tm_IsRequisition t,
      IsCritical = tm_IsCritical t, InternalClock = 0, NationID = tm_NationID t, Signature = tm_Signature t\<rparr>"

lemma telemetry_read_back:
  assumes "valid_data (data_of_telemetry t)"
  shows "unmarshal_data (go_broker_json T f g) (Marshal (json_of_Telemetry t)) = Some (data_of_telemetry t)"
  unfolding go_broker_json_def broker_json.simps
  by (rule Unmarshal_Marshal)
    (use assms in \<open>simp_all add: json_of_Telemetry_def SensorData_fields_def find_field_def valid_data_def data_of_telemetry_def zero_SensorData_def\<close>)

section \<open>Answers without a result\<close>

text \<open>A JSON object none of whose members is the field \<open>result\<close>.\<close>

definition no_result :: "bytes \<Rightarrow> bool" where
  "no_result body \<longleftrightarrow>
     (case json_first body of Some (JObj ms) \<Rightarrow> list_all (\<lambda>m. fold_key (fst m) \<noteq> fold_key ''result'') ms | _ \<Rightarrow> False)"

lemma fill_skips: "list_all (\<lambda>m. find_field fs (fst m) = None) ms \<Longrightarrow> fill_members fs ms a = (a, True)"
  by (induction ms) auto

lemma find_field_no_result: "fold_key k \<noteq> fold_key ''result'' \<Longrightarrow> find_field CometRPC_fields k = None"
  by (auto simp: CometRPC_fields_def find_field_def)

lemma decode_no_result:
  assumes "no_result body"
  shows "decode_rpc go_rpc_json body = Some \<lparr>rpc_Code = 0, rpc_Log = []\<rparr>"
proof -
  obtain ms where j: "json_first body = Some (JObj ms)" "list_all (\<lambda>m. fold_key (fst m) \<noteq> fold_key ''result'') ms"
    using assms by (auto simp: no_result_def split: option.splits json.splits)
  have "fill_members CometRPC_fields ms a = (a, True)" for a
    by (rule fill_skips) (use j(2) find_field_no_result in \<open>simp add: list_all_iff\<close>)
  then show ?thesis using j(1) by (simp add: go_rpc_json_def Decode_def)
qed

end
