(* ===== verification/Wire_Props.thy ===== *)
theory Wire_Props
  imports Wire
begin

text \<open>
  The properties of the messages: what is written is read back, what is read is well-formed, and the
  results about the credit check and the failover for the codecs the program uses.
\<close>

section \<open>Data\<close>

text \<open>C20. A transaction survives its trip through JSON: reading what was written gives the transaction back, with each
  byte outside a well-formed character replaced by U+FFFD.\<close>

theorem transaction_roundtrip:
  "go_unmarshal_tx (marshal_tx go_rpc_json tx) = Some (clean_tx tx)"
  by (simp add: go_rpc_json_def unmarshal_marshal_tx)

text \<open>C21. Whatever bytes arrive, the data the broker decodes from a packet is of its Go type: its sector fits 64
  bits and its strings are well-formed UTF-8; and when it is written and read again, nothing changes.\<close>

theorem packet_well_typed:
  assumes "unmarshal_data (go_broker_json T f g) raw = Some data"
  shows "valid_data data \<and>
    unmarshal_data (go_broker_json T f g) (marshal_data (go_broker_json T f g) data) = Some data"
  using packet_valid [OF assms] data_read_back by blast

definition example_time :: time_codec where
  "example_time = \<lparr>time_Marshal = (\<lambda>t. if int64 t then Some (Itoa t) else None), time_Unmarshal = (\<lambda>s. Some (atoi_val s))\<rparr>"

lemma example_time_ok: "time_ok example_time" "time_Marshal example_time 0 \<noteq> None"
proof -
  have "valid_utf8 (Itoa i)" for i
    using integral_Itoa [of i] by (intro valid_ascii) (auto simp: integral_def list_all_iff is_digit_range byte_val_def neq_Nil_conv Let_def split: if_splits)
  then show "time_ok example_time" by (simp add: time_ok_def example_time_def)
  show "time_Marshal example_time 0 \<noteq> None" by (simp add: example_time_def int64_def)
qed

definition go_example_json :: broker_json where
  "go_example_json = go_broker_json example_time (\<lambda>_. None) (\<lambda>_. [])"

lemma example_data_valid: "valid_data (example_data ''event-0001'')"
proof -
  have "valid_utf8 ''event-0001''" "valid_utf8 ''s1''" "valid_utf8 ''BR''" by (rule valid_ascii, simp add: byte_val_def)+
  then show ?thesis by (simp add: valid_data_def example_data_def zero_SensorData_def int64_def)
qed

lemma example_packet:
  "unmarshal_data (go_broker_json example_time (\<lambda>_. None) (\<lambda>_. [])) (Marshal (json_of_SensorData (example_data ''event-0001''))) =
     Some (example_data ''event-0001'')"
  using data_read_back [OF example_data_valid, of example_time "\<lambda>_. None" "\<lambda>_. []"] by (simp add: go_broker_json_def)

theorem packet_well_typed_witness:
  "unmarshal_data go_example_json (marshal_data go_example_json (example_data ''event-0001'')) = Some (example_data ''event-0001'')"
  using packet_well_typed [OF example_packet] by (simp add: go_example_json_def)

section \<open>The credit check\<close>

text \<open>A node that fails once and then answers that the transaction is valid.\<close>

definition accepted_answer :: json where
  "accepted_answer = JObj [(''result'', JObj [(''code'', JNum (Itoa 0)), (''log'', JStr [])])]"

definition go_example_net :: network where
  "go_example_net =
     \<lparr>net_post = (\<lambda>url body i. if i = 0 then Answer 503 [] else Answer 200 (Encode accepted_answer)),
      net_get = (\<lambda>url i. NoConnection)\<rparr>"

lemma answer_names [simp]: "to_valid ''result'' = ''result''" "to_valid ''code'' = ''code''" "to_valid ''log'' = ''log''"
  by (rule to_valid_ascii, simp add: byte_val_def)+

lemma accepted_answer_read: "decode_rpc go_rpc_json (Encode accepted_answer) = Some \<lparr>rpc_Code = 0, rpc_Log = []\<rparr>"
proof -
  have "int64 0" by (simp add: int64_def)
  then show ?thesis
    unfolding go_rpc_json_def rpc_json.simps
    by (intro Unmarshal_Marshal) (simp_all add: accepted_answer_def CometRPC_fields_def find_field_def nested_def)
qed

lemma go_node_serves:
  assumes "CheckTx L go_unmarshal_tx db tx = result 0 []"
  shows "node_serves L go_unmarshal_tx db go_rpc_json go_example_net url i tx"
  using assms accepted_answer_read unfolding node_serves_def answers_def Let_def
  by (intro exI [of _ "1 :: nat"]) (auto simp: go_example_net_def post_retryable_def)

lemma example_spend_checked:
  "CheckTx example_leveldb go_unmarshal_tx (example_db ''1'') (marshal_tx go_rpc_json (spend_tx example_ed25519 (example_data ''event-0001''))) = result 0 []"
  using spend_tx_read_back [OF example_data_valid, of example_ed25519]
  by (simp add: CheckTx_def spend_tx_def example_data_def example_leveldb_def example_db_def example_numbers)

lemma example_credit: "bal (ledger_abs example_leveldb (example_db ''1'')) (NationID (example_data ''event-0001'')) = Some 1"
  by (simp add: ledger_abs_def example_leveldb_def example_db_def example_numbers example_data_def)

text \<open>C10. A packet is paid for, bytes included: for the data of any packet the broker has decoded, when the node
  answers within the retries, \<open>SpendCredit\<close> approves the event exactly when the ledger holds a positive balance
  for its nation. If it approves, the nation is of the consortium and the event, with a name of at least eight
  bytes, was not charged before, then the very bytes sent to the node make the ledger take one credit from that
  nation and record the event.\<close>

theorem packet_charged:
  assumes "leveldb_ok L" "ed25519_ok E" "unmarshal_data (go_broker_json T f g) raw = Some data"
    and "node_serves L go_unmarshal_tx db go_rpc_json net url 1 (marshal_tx go_rpc_json (spend_tx E data))"
  shows "(SpendCredit E go_rpc_json net (NewLedgerClient url) data \<longleftrightarrow> (\<exists>c > 0. bal (ledger_abs L db) (NationID data) = Some c)) \<and>
    (SpendCredit E go_rpc_json net (NewLedgerClient url) data \<and> NationID data \<in> consortium \<and> loggable (EventID data) \<and>
       ''SPEND_CREDIT'' @ ''_'' @ EventID data \<notin> applied (ledger_abs L db) \<longrightarrow>
     (\<exists>db' c. deliver_tx E L go_unmarshal_tx db (marshal_tx go_rpc_json (spend_tx E data)) = Returned db' (result 0 []) \<and>
        bal (ledger_abs L db) (NationID data) = Some c \<and> bal (ledger_abs L db') (NationID data) = Some (c - 1) \<and>
        ''SPEND_CREDIT'' @ ''_'' @ EventID data \<in> applied (ledger_abs L db')))"
proof -
  note rb = spend_tx_read_back [OF packet_valid [OF assms(3)], of E]
  note approved = SpendCredit_served [OF rb assms(4)]
  have "\<exists>db'. deliver_tx E L go_unmarshal_tx db (marshal_tx go_rpc_json (spend_tx E data)) = Returned db' (result 0 []) \<and>
      bal (ledger_abs L db') (NationID data) = Some (c - 1) \<and> ''SPEND_CREDIT'' @ ''_'' @ EventID data \<in> applied (ledger_abs L db')"
    if "NationID data \<in> consortium" "loggable (EventID data)" "bal (ledger_abs L db) (NationID data) = Some c" "0 < c"
      "''SPEND_CREDIT'' @ ''_'' @ EventID data \<notin> applied (ledger_abs L db)" for c
  proof -
    have "int64 (c - 1)" using bal_int64 [OF that(3)] that(4) by (simp add: int64_def)
    then show ?thesis
      using that(3,4) signed_tx_applied [where unmarshal = go_unmarshal_tx, OF assms(1,2) that(1,2) rb [unfolded spend_tx_def] that(5)]
      by (auto simp: spec_apply_def is_spend_def op_key_def spend_tx_def)
  qed
  then show ?thesis using approved by blast
qed

theorem packet_charged_witness:
  "\<exists>db' c. deliver_tx example_ed25519 example_leveldb go_unmarshal_tx (example_db ''1'')
      (marshal_tx go_rpc_json (spend_tx example_ed25519 (example_data ''event-0001''))) = Returned db' (result 0 []) \<and>
    bal (ledger_abs example_leveldb db') (NationID (example_data ''event-0001'')) = Some (c - 1)"
proof -
  have "NationID (example_data ''event-0001'') \<in> consortium" "loggable (EventID (example_data ''event-0001''))"
    "''SPEND_CREDIT'' @ ''_'' @ EventID (example_data ''event-0001'') \<notin> applied (ledger_abs example_leveldb (example_db ''1''))"
    by (simp_all add: example_data_def loggable_def ledger_abs_def example_leveldb_def example_db_def key_defs)
  with packet_charged [OF example_leveldb_ok example_ed25519_ok example_packet go_node_serves [OF example_spend_checked],
      of "''http://node''"] example_credit
  show ?thesis by auto
qed

text \<open>C38. An error of the node passes for an approval: an answer that carries no \<open>result\<close>, as a JSON-RPC error does,
  leaves the result code at its zero value, and \<open>SpendCredit\<close> approves an event the ledger has never seen.\<close>

theorem rpc_error_approves:
  assumes "answers post_retryable (net_post net url
      (marshal_rpc go_rpc_json 1 ''broadcast_tx_sync'' (base64_EncodeToString (marshal_tx go_rpc_json (spend_tx E data))))) no_result"
  shows "SpendCredit E go_rpc_json net (NewLedgerClient url) data"
proof -
  have "CometBFTUrl (NewLedgerClient url) = url" "\<not> post_retryable 200" by (simp_all add: NewLedgerClient_def post_retryable_def)
  then show ?thesis
    using answered_request [OF assms maxRetries_New, of url "decode_rpc go_rpc_json"] decode_no_result
    unfolding SpendCredit_def broadcast_tx_def PostJSON_def option.case request_loop_spec Let_def by auto
qed

definition error_answer :: json where
  "error_answer = JObj [(''error'', JObj [(''code'', JNum (Itoa (- 32603))), (''message'', JStr ''tx already exists in cache'')])]"

lemma error_answer_no_result: "no_result (print error_answer)"
proof -
  have "to_valid ''error'' = ''error''" by (rule to_valid_ascii) (simp add: byte_val_def)
  moreover have "fold_key ''error'' \<noteq> fold_key ''result''"
    by (simp add: fold_key.simps byte_val_def char_of_eqI)
  moreover have "json_first (print error_answer) = Some (clean error_answer)"
    by (rule json_parse_print(3)) (simp add: error_answer_def)
  ultimately show ?thesis unfolding no_result_def by (simp add: error_answer_def)
qed

theorem rpc_error_approves_witness:
  "SpendCredit example_ed25519 go_rpc_json
     \<lparr>net_post = (\<lambda>url body i. Answer 200 (print error_answer)), net_get = (\<lambda>url i. NoConnection)\<rparr>
     (NewLedgerClient ''http://node'') (example_data ''event-0001'')"
  by (rule rpc_error_approves) (use error_answer_no_result in \<open>auto simp: answers_def intro!: exI [of _ "0 :: nat"]\<close>)

section \<open>Failover\<close>

text \<open>C7. A mission survives the broker that owns it. When an owner queues a mission, it posts it to every other
  member of the ring; a broker that takes this message in, byte by byte, and later inherits the sector
  puts that very mission, with its Lamport time, into its own queue at the next rescue.\<close>

theorem failover_over_json:
  assumes "cfg_json cfg = go_broker_json T f g" "time_ok T" "time_Marshal T 0 \<noteq> None"
    and "unmarshal_data (cfg_json cfg) raw = Some data" "accepts data s" "\<not> elsewhere cfg env data s" "pays cfg env data"
    and "ip \<in> set (GetAllMembers (cfg_ring cfg) (Router s))" "ip \<noteq> getLocalIP (env_addrs env)"
    and "body = marshal_sync (cfg_json cfg) ''ACK'' (EventID data) (mission_of env data s)"
    and "broker_inv t" "\<forall>e \<in> names cfg t. loggable e" "loggable (EventID data)"
    and "owned_here (cfg_ring cfg) addrs router (mission_of env data s)" "EventID data \<in> set order"
  shows "HTTPPost (''http://'' @ ip @ '':8080/internal/shadow/sync'') body \<in> set (outbox (process cfg env raw s)) \<and>
    mission_of env data s \<in># pq_contents (snd (out_state (RescueOrphanedMissions (cfg_ring cfg) addrs router order
      (ShadowBuffer (out_state (HandleShadowSync cfg now ''POST'' body t))) (Queue t))))"
proof -
  have v: "valid_data data" using packet_valid [of T f g raw data] assms(1,4) by simp
  then have "sendable T (mission_of env data s)"
    using assms(2,3) by (simp add: sendable_def valid_mission_def mission_of_def zero_Mission_def)
  moreover have "valid_utf8 ''ACK''" by (rule valid_ascii) (simp add: byte_val_def)
  ultimately have "decode_sync (cfg_json cfg) body = Some (''ACK'', EventID data, mission_of env data s)"
    using sync_read_back [of T "mission_of env data s" "''ACK''" "EventID data" f g] v assms(1,10) by (simp add: valid_data_def)
  then show ?thesis by (rule failover_preserves_mission [OF assms(4-10) _ assms(11-15)])
qed

definition go_example_cfg :: "(string list, bytes) broker_cfg" where
  "go_example_cfg = example_cfg\<lparr>cfg_json := go_example_json, cfg_rpc := go_rpc_json\<rparr>"

definition go_example_env :: process_env where
  "go_example_env = example_env\<lparr>env_net := go_example_net\<rparr>"

lemma go_example_sel [simp]:
  "cfg_json go_example_cfg = go_example_json" "cfg_ring go_example_cfg = example_ring" "cfg_rpc go_example_cfg = go_rpc_json"
  "cfg_crypto go_example_cfg = example_ed25519" "cfg_ledger go_example_cfg = NewLedgerClient ''http://node''"
  "env_net go_example_env = go_example_net" "env_addrs go_example_env = example_addrs"
  by (simp_all add: go_example_cfg_def go_example_env_def example_cfg_def example_env_def)

lemma go_example_pays: "pays go_example_cfg go_example_env (example_data ''event-0001'')"
  using SpendCredit_served [OF spend_tx_read_back [OF example_data_valid] go_node_serves [OF example_spend_checked], of "''http://node''"]
    example_credit by auto

definition go_primary :: "string list broker" where
  "go_primary = (NewBroker go_example_cfg)\<lparr>Router := example_router [''10.0.0.1'', ''10.0.0.2'']\<rparr>"

abbreviation go_example_packet :: bytes where
  "go_example_packet \<equiv> Marshal (json_of_SensorData (example_data ''event-0001''))"

abbreviation go_example_mission :: Mission where
  "go_example_mission \<equiv> mission_of go_example_env (example_data ''event-0001'') go_primary"

theorem failover_over_json_witness:
  "go_example_mission \<in>#
     pq_contents (snd (out_state (RescueOrphanedMissions (cfg_ring go_example_cfg) other_addrs (example_router [''10.0.0.2'']) [''event-0001'']
       (ShadowBuffer (out_state (HandleShadowSync go_example_cfg 0 ''POST''
          (marshal_sync (cfg_json go_example_cfg) ''ACK'' (EventID (example_data ''event-0001'')) go_example_mission) (NewBroker go_example_cfg))))
       (Queue (NewBroker go_example_cfg)))))"
proof -
  let ?d = "example_data ''event-0001''"
  have e: "EventID ?d = ''event-0001''" by (simp add: example_data_def)
  have j: "cfg_json go_example_cfg = go_broker_json example_time (\<lambda>_. None) (\<lambda>_. [])" by (simp add: go_example_json_def)
  have u: "unmarshal_data (cfg_json go_example_cfg) go_example_packet = Some ?d" using example_packet by (simp add: go_example_json_def)
  have acc: "accepts ?d go_primary"
    by (simp add: accepts_def go_primary_def example_data_def NewBroker_def NewIdempotencyFilter_def)
  have own: "\<not> elsewhere go_example_cfg go_example_env ?d go_primary"
    by (simp add: elsewhere_def go_primary_def example_primary_members isLocalIP_def getLocalIP_def example_addrs_def)
  have mem: "''10.0.0.2'' \<in> set (GetAllMembers (cfg_ring go_example_cfg) (Router go_primary))" "''10.0.0.2'' \<noteq> getLocalIP (env_addrs go_example_env)"
    by (simp_all add: go_primary_def example_primary_members getLocalIP_def example_addrs_def)
  have here: "owned_here (cfg_ring go_example_cfg) other_addrs (example_router [''10.0.0.2'']) go_example_mission"
    by (simp add: owned_here_def example_owner isLocalIP_def getLocalIP_def other_addrs_def)
  have "\<forall>e \<in> names go_example_cfg (NewBroker go_example_cfg). loggable e" "loggable (EventID ?d)" "EventID ?d \<in> set [''event-0001'']"
    by (simp_all add: names_New e loggable_def)
  from failover_over_json [where ip = "''10.0.0.2''", OF j example_time_ok u acc own go_example_pays mem refl broker_inv_New this(1,2) here this(3)]
  show ?thesis by blast
qed

section \<open>From the queue to the drone\<close>

text \<open>C16. A mission travels from a broker's queue to a drone unchanged: when a station asks the broker on behalf of a
  registered drone, and each answer reaches its asker after at most three failures, the drone gets exactly
  the mission the broker took from its queue and filed as checked out, and the station tracks it.\<close>

theorem mission_reaches_drone:
  assumes "cfg_json cfg = go_broker_json T f g" "sendable T m" "loggable (event_of m)"
    and "Dequeue (Queue b) = (q, m, True)" "HandleQueuePop cfg now ''GET'' b = Returned b' popped"
    and "maxRetries (st_HTTPClient s) = 3" "RegisteredDrones s i = Some since"
    and "answers get_retryable (net (BrokerURL s @ ''/queue/pop'')) (\<lambda>body. body = resp_body popped)"
    and "handleMissionPull (go_station_json T) net now' i s = Returned s' pulled"
    and "maxRetries (d_HTTPClient d) = 3" "ID d = i"
    and "answers get_retryable (net_get net' (ActiveStationURL d @ ''/api/mission/pull?drone_id='' @ i)) (\<lambda>body. body = resp_body pulled)"
  shows "pullMission (go_drone_json T) net' d = (m, True) \<and>
    pendingMissions b' (event_of m) = Some \<lparr>pm_Mission = m, CheckoutTime = now\<rparr> \<and> event_of m \<in> tracked s'"
proof -
  have e: "event_of m \<noteq> []" using assms(3) by (auto simp: loggable_def)
  have pop: "resp_body popped = marshal_mission (cfg_json cfg) m" "pendingMissions b' (event_of m) = Some \<lparr>pm_Mission = m, CheckoutTime = now\<rparr>"
    using assms(3-5) by (auto simp: HandleQueuePop_def Let_def)
  have get: "\<not> get_retryable 200" by (simp add: get_retryable_def)
  have "fst (GetJSON (st_HTTPClient s) (net (BrokerURL s @ ''/queue/pop'')) (Some (decode_pulled (go_station_json T)))) = Inr (Some m)"
    using answered_request [OF assms(8,6) get, of "decode_pulled (go_station_json T)"] pulled_read_back(1) [OF assms(2)] pop(1) assms(1)
    unfolding GetJSON_def request_loop_spec by auto
  then have pull: "resp_body pulled = marshal_pulled (go_station_json T) m" "event_of m \<in> tracked s'"
    using assms(3,7,9) e by (auto simp: handleMissionPull_def Let_def tracked_def MarkInFlight_def)
  have "fst (GetJSON (d_HTTPClient d) (net_get net' (ActiveStationURL d @ ''/api/mission/pull?drone_id='' @ ID d)) (Some (decode_mission (go_drone_json T)))) = Inr (Some m)"
    using answered_request [OF assms(12,10) get, of "decode_mission (go_drone_json T)"] pulled_read_back(2) [OF assms(2)] pull(1) assms(11)
    unfolding GetJSON_def request_loop_spec by auto
  then show ?thesis using pop(2) pull(2) e by (simp add: pullMission_def Let_def)
qed

text \<open>A mission, a broker that has queued it, a station and a drone for a closed example.\<close>

lemma example_target_sendable: "sendable example_time example_target" "loggable (event_of example_target)"
  using example_time_ok example_data_valid
  by (simp_all add: sendable_def valid_mission_def example_target_def zero_Mission_def example_data_def loggable_def)

abbreviation courier :: "string \<Rightarrow> nat \<Rightarrow> attempt" where
  "courier url n \<equiv> Answer 200 (encoded (json_of_Mission example_time example_target))"

lemma courier_answers:
  "body = encoded (json_of_Mission example_time example_target) \<Longrightarrow> answers get_retryable (courier url) (\<lambda>b. b = body)"
  by (auto simp: answers_def intro!: exI [of _ "0 :: nat"])

definition go_drone :: Drone where
  "go_drone = (NewDrone ''UAV-1000'' ''http://s'' ''http://c'')\<lparr>ActiveStationURL := ''http://st:8081'', IsRegistered := True\<rparr>"

definition go_station :: StationServer where
  "go_station = (NewStationServer ''http://broker'')\<lparr>RegisteredDrones := [''UAV-1000'' \<mapsto> 0]\<rparr>"

lemma go_station_pulls:
  obtains s' where "handleMissionPull (go_station_json example_time) courier 0 ''UAV-1000'' go_station =
    Returned s' (reply 200 (marshal_pulled (go_station_json example_time) example_target))"
proof -
  have "decode_pulled (go_station_json example_time) (encoded (json_of_Mission example_time example_target)) = Some example_target"
    using pulled_read_back(1) [OF example_target_sendable(1)] by (simp add: go_broker_json_def)
  then have "fst (GetJSON (st_HTTPClient go_station) (courier url) (Some (decode_pulled (go_station_json example_time)))) = Inr (Some example_target)" for url
    by (simp add: GetJSON_def request_loop.simps(2) get_retryable_def read_answer_def)
  moreover have "event_of example_target \<noteq> []" using example_target_sendable(2) by (auto simp: loggable_def)
  moreover have "RegisteredDrones go_station ''UAV-1000'' = Some 0" by (simp add: go_station_def)
  ultimately show ?thesis using that example_target_sendable(2) by (simp add: handleMissionPull_def)
qed

theorem mission_reaches_drone_witness:
  "pullMission (go_drone_json example_time) \<lparr>net_post = (\<lambda>url body n. NoConnection), net_get = courier\<rparr> go_drone = (example_target, True)"
proof -
  let ?b = "(NewBroker go_example_cfg)\<lparr>Queue := Enqueue (New 100) example_target\<rparr>"
  have "pq_invar (Queue ?b)" "pq_contents (Queue ?b) = {#example_target#}" by (simp_all add: pq.invar_enqueue pq.contents_enqueue)
  moreover from this obtain q m where d: "Dequeue (Queue ?b) = (q, m, True)" using pq.dequeue_nonempty by fastforce
  ultimately have d: "Dequeue (Queue ?b) = (q, example_target, True)" using pq.dequeue_some [of "Queue ?b" q m] by simp
  obtain b' where p: "HandleQueuePop go_example_cfg 0 ''GET'' ?b = Returned b' (reply 200 (marshal_mission (cfg_json go_example_cfg) example_target))"
    using d example_target_sendable(2) by (simp add: HandleQueuePop_def)
  obtain s' where s: "handleMissionPull (go_station_json example_time) courier 0 ''UAV-1000'' go_station =
      Returned s' (reply 200 (marshal_pulled (go_station_json example_time) example_target))"
    by (rule go_station_pulls)
  have j: "cfg_json go_example_cfg = go_broker_json example_time (\<lambda>_. None) (\<lambda>_. [])" by (simp add: go_example_json_def)
  have c: "maxRetries (st_HTTPClient go_station) = 3" "RegisteredDrones go_station ''UAV-1000'' = Some 0"
    "maxRetries (d_HTTPClient go_drone) = 3" "ID go_drone = ''UAV-1000''"
    by (simp_all add: go_station_def NewStationServer_def NewHTTPClient_def go_drone_def NewDrone_def)
  have a: "answers get_retryable (courier url) (\<lambda>body. body = resp_body (reply 200 (marshal_mission (cfg_json go_example_cfg) example_target)))"
    "answers get_retryable (net_get \<lparr>net_post = (\<lambda>url body n. NoConnection), net_get = courier\<rparr> url)
      (\<lambda>body. body = resp_body (reply 200 (marshal_pulled (go_station_json example_time) example_target)))" for url
    by (simp_all add: courier_answers go_example_json_def go_broker_json_def go_station_json_def)
  from mission_reaches_drone [OF j example_target_sendable d p c(1,2) a(1) s c(3,4) a(2)] show ?thesis by blast
qed

end
