(* ===== verification/Wire_Ends.thy ===== *)
theory Wire_Ends
  imports Wire_Props
begin

text \<open>
  The two ends of the program: what a sensor sends is what a broker reads, what a drone reports is what
  the ledger archives, and what the ledger holds is what the explorer shows.
\<close>

section \<open>From the sensor to the broker\<close>

lemma valid_Itoa: "valid_utf8 (Itoa i)"
  by (rule integral_ascii) simp

lemma valid_sensor_name: "valid_utf8 (sensor_name n)"
proof -
  have "valid_utf8 ''sensor-sec-''" "valid_utf8 ''0''" by (rule valid_ascii, simp add: byte_val_def)+
  then show ?thesis unfolding sensor_name_def by (intro valid_utf8_append valid_Itoa) simp_all
qed

text \<open>A shot of the load generator that is a threat, as the broker is to see it.\<close>

lemma fire_threat:
  assumes "fire sha256 e dr [] = Returned [p] u" "dr_threat dr < ThreatProbability e"
    and "valid_utf8 (dr_uuid dr)" "\<forall>n \<in> set (Nations e). valid_utf8 n" "TotalSectors e < 2 ^ 63"
  shows "valid_data (data_of_telemetry p) \<and> tm_EventID p = dr_uuid dr \<and> tm_IsRequisition p \<and> tm_SensorID p \<noteq> [] \<and>
    1 \<le> tm_SectorID p \<and> tm_SectorID p \<le> TotalSectors e \<and> tm_NationID p \<in> set (Nations e) \<and>
    tm_SensorID p = sensor_name (tm_SectorID p) \<and> (\<exists>x. tm_Signature p = hex_EncodeToString (sha256 x))"
proof -
  obtain r k where r: "Intn (TotalSectors e) (dr_sector dr) = Inr r" and k: "Intn (int (length (Nations e))) (dr_nation dr) = Inr k"
    using assms(1) by (auto simp: fire_def Let_def split: sum.splits)
  have b: "0 \<le> r" "r < TotalSectors e" "0 \<le> k" "k < int (length (Nations e))"
    using r k by (auto simp: Intn_def split: if_splits)
  have p: "tm_EventID p = dr_uuid dr" "tm_SensorID p = sensor_name (r + 1)" "tm_SectorID p = r + 1" "tm_IsRequisition p"
    "tm_NationID p = Nations e ! nat k" "\<exists>x. tm_Signature p = hex_EncodeToString (sha256 x)"
    using assms(1,2) r k by (auto simp: fire_def NewTelemetry_def Let_def)
  have n: "tm_NationID p \<in> set (Nations e)" using b(3,4) by (simp add: p(5) nat_less_iff)
  have "valid_data (data_of_telemetry p)"
    using p n b assms(3-5) valid_sensor_name valid_hex by (auto simp: valid_data_def data_of_telemetry_def int64_def)
  then show ?thesis using p n b by (auto simp: sensor_name_def)
qed

lemma length_escape_ascii: "length (escape_ascii c) \<le> 6"
  by (simp add: escape_ascii_def u_escape_def)

lemma length_escape: "length (escape s) \<le> 6 * length s"
proof (induction s rule: escape.induct)
  case (2 c s)
  let ?w = "utf8_width (c # s)"
  consider "byte_val c < 128" | "\<not> byte_val c < 128" "?w = 0"
    | "\<not> byte_val c < 128" "?w \<noteq> 0" "take 3 (c # s) = encode_rune 0x2028 \<or> take 3 (c # s) = encode_rune 0x2029"
    | "\<not> byte_val c < 128" "?w \<noteq> 0" "take 3 (c # s) \<noteq> encode_rune 0x2028" "take 3 (c # s) \<noteq> encode_rune 0x2029" by blast
  then show ?case
  proof cases
    case 1
    then show ?thesis using 2(1) length_escape_ascii [of c] by (simp add: escape.simps(2))
  next
    case 2
    then show ?thesis using "2.IH"(2) by (simp add: escape.simps(2) [of c] u_escape_def)
  next
    case 3
    then have "length (escape (drop 2 s)) \<le> 6 * length (drop 2 s)" using "2.IH"(3,4) by blast
    then show ?thesis using 3 by (auto simp: escape.simps(2) [of c] u_escape_def)
  next
    case 4
    have "?w - 1 \<le> length s" using utf8_width_prefix [OF 4(2)] by blast
    then show ?thesis using "2.IH"(5) 4 by (simp add: escape.simps(2) [of c])
  qed
qed simp

lemma length_quote: "length (quote s) \<le> 6 * length s + 2"
  using length_escape [of s] by (simp add: quote_def)

lemma length_decimal: "n < 10 ^ Suc k \<Longrightarrow> length (decimal n) \<le> Suc k"
proof (induction k arbitrary: n)
  case 0
  then show ?case by (simp add: decimal.simps)
next
  case (Suc k)
  show ?case
  proof (cases "n < 10")
    case False
    have "n div 10 < 10 ^ Suc k" using Suc.prems by (simp add: less_mult_imp_div_less mult.commute)
    then show ?thesis using Suc.IH [of "n div 10"] False by (subst decimal.simps) simp
  qed (simp add: decimal.simps)
qed

lemma length_Itoa: "0 \<le> i \<Longrightarrow> i < 2 ^ 63 \<Longrightarrow> length (Itoa i) \<le> 19"
  using length_decimal [of "nat i" 18] by (simp add: Itoa_def)

lemma quote_plain:
  assumes "list_all (\<lambda>c. byte_val c < 128 \<and> escape_ascii c = [c]) s"
  shows "length (quote s) = length s + 2"
proof -
  have "escape s = s" using assms by (induction s) (simp_all add: escape.simps)
  then show ?thesis by (simp add: quote_def)
qed

lemma length_names:
  "length (quote ''event_id'') = 10" "length (quote ''sensor_id'') = 11" "length (quote ''sector_id'') = 11"
  "length (quote ''is_requisition'') = 16" "length (quote ''is_critical'') = 13" "length (quote ''nation_id'') = 11"
  "length (quote ''signature'') = 11"
  by (subst quote_plain, simp_all add: escape_ascii_def byte_val_def)+

lemma length_Marshal_Telemetry:
  assumes "length (tm_EventID t) \<le> 36" "length (tm_SensorID t) \<le> 31" "length (tm_NationID t) \<le> 8" "length (tm_Signature t) \<le> 64"
    and "0 \<le> tm_SectorID t" "tm_SectorID t < 2 ^ 63"
  shows "length (Marshal (json_of_Telemetry t)) \<le> 1024"
  using assms(1-4) length_Itoa [OF assms(5,6)] length_quote [of "tm_EventID t"] length_quote [of "tm_SensorID t"]
    length_quote [of "tm_NationID t"] length_quote [of "tm_Signature t"]
  by (simp add: Marshal_def json_of_Telemetry_def length_names)

text \<open>C15. A threat a sensor reports is a request a broker acts on. For an identifier of up to 36 bytes, names of
  nations of up to 8 and a digest of 32, the packet of such a shot fits the receive buffer; a broker that has
  just started decodes it into the same event, sector and nation, lets it pass its checks, and, when the
  ledger approves, queues it as a mission with the first Lamport time.\<close>

theorem threat_becomes_mission:
  assumes "cfg_json cfg = go_broker_json T f g" "consistent_ok (cfg_ring cfg)"
    and "fire sha256 e dr [] = Returned [p] u" "dr_threat dr < ThreatProbability e"
    and "valid_utf8 (dr_uuid dr)" "\<forall>n \<in> set (Nations e). valid_utf8 n" "TotalSectors e < 2 ^ 63"
    and "length (dr_uuid dr) \<le> 36" "\<forall>n \<in> set (Nations e). length n \<le> 8" "\<forall>x. length (sha256 x) = 32"
    and "pays cfg env (data_of_telemetry p)"
  shows "\<exists>s. broker_run cfg (NewBroker cfg) [EDatagram (Some (Marshal (json_of_Telemetry p))), EWork env] = Returned s () \<and>
    pq_contents (Queue s) = {#zero_Mission\<lparr>Payload := data_of_telemetry p, LamportClock := 1\<rparr>#}"
proof -
  let ?raw = "Marshal (json_of_Telemetry p)" and ?d = "data_of_telemetry p" and ?s0 = "NewBroker cfg"
  note t = fire_threat [OF assms(3-7)]
  have "length (sensor_name (tm_SectorID p)) \<le> 31"
    using t assms(7) length_Itoa [of "tm_SectorID p"] by (auto simp: sensor_name_def)
  then have l: "length ?raw \<le> 1024" using t assms(7-10) by (intro length_Marshal_Telemetry) auto
  have u: "unmarshal_data (cfg_json cfg) ?raw = Some ?d" using telemetry_read_back t assms(1) by simp
  have acc: "accepts ?d ?s0" by (rule New_accepts) (use t in \<open>auto simp: data_of_telemetry_def\<close>)
  have "?s0\<lparr>packetsChan := []\<rparr> = ?s0" by (simp add: NewBroker_def)
  then have "broker_run cfg ?s0 [EDatagram (Some ?raw), EWork env] = Returned (process cfg env ?raw ?s0) ()"
    using l by (simp add: startUDPIngestion_turn_def worker_turn_def NewBroker_def)
  moreover have "mission_of env ?d ?s0 = zero_Mission\<lparr>Payload := ?d, LamportClock := 1\<rparr>"
    by (simp add: mission_of_def stamp_def Tick_def data_of_telemetry_def NewBroker_def)
  moreover have "Queue ?s0 = New 100" by (simp add: NewBroker_def)
  ultimately show ?thesis
    using process_owns [OF u acc New_not_elsewhere [OF assms(2)], of env] assms(11) by (simp add: pq.contents_enqueue)
qed

definition example_shot :: "int draws" where
  "example_shot = \<lparr>dr_threat = 0, dr_sector = 6, dr_nation = 0, dr_critical = 9, dr_uuid = ''event-0001''\<rparr>"

definition go_engine :: "int Engine" where
  "go_engine = \<lparr>TotalSectors = 25, Frequency = 500 * Millisecond, ThreatProbability = 1, CriticalProbability = 1, Nations = [''BR'']\<rparr>"

definition example_digest :: "bytes \<Rightarrow> bytes" where
  "example_digest x = replicate 32 (CHR 0x00)"

definition example_reading :: Telemetry where
  "example_reading = NewTelemetry ''event-0001'' (sensor_name 7) 7 True False ''BR'' (hex_EncodeToString (example_digest []))"

lemma example_fire: "fire example_digest go_engine example_shot [] = Returned [example_reading] ()"
  by (simp add: fire_def example_shot_def go_engine_def Intn_def example_reading_def example_digest_def)

lemma example_shot_ok:
  "valid_utf8 (dr_uuid example_shot)" "\<forall>n \<in> set (Nations go_engine). valid_utf8 n" "TotalSectors go_engine < 2 ^ 63"
  "length (dr_uuid example_shot) \<le> 36" "\<forall>n \<in> set (Nations go_engine). length n \<le> 8" "\<forall>x. length (example_digest x) = 32"
  "dr_threat example_shot < ThreatProbability go_engine"
proof -
  have "valid_utf8 ''event-0001''" "valid_utf8 ''BR''" by (rule valid_ascii, simp add: byte_val_def)+
  then show "valid_utf8 (dr_uuid example_shot)" "\<forall>n \<in> set (Nations go_engine). valid_utf8 n" "TotalSectors go_engine < 2 ^ 63"
    "length (dr_uuid example_shot) \<le> 36" "\<forall>n \<in> set (Nations go_engine). length n \<le> 8" "\<forall>x. length (example_digest x) = 32"
    "dr_threat example_shot < ThreatProbability go_engine"
    by (simp_all add: example_shot_def go_engine_def example_digest_def)
qed

lemma example_reading_pays: "pays go_example_cfg go_example_env (data_of_telemetry example_reading)"
proof -
  have "spend_tx E (data_of_telemetry example_reading) = spend_tx E (example_data ''event-0001'')" for E :: "bytes ed25519"
    by (simp add: spend_tx_def data_of_telemetry_def example_reading_def NewTelemetry_def example_data_def)
  then show ?thesis using go_example_pays by (simp add: SpendCredit_def)
qed

theorem threat_becomes_mission_witness:
  "\<exists>s. broker_run go_example_cfg (NewBroker go_example_cfg) [EDatagram (Some (Marshal (json_of_Telemetry example_reading))), EWork go_example_env] = Returned s () \<and>
    pq_contents (Queue s) = {#zero_Mission\<lparr>Payload := data_of_telemetry example_reading, LamportClock := 1\<rparr>#}"
proof -
  have c: "cfg_json go_example_cfg = go_broker_json example_time (\<lambda>_. None) (\<lambda>_. [])" "consistent_ok (cfg_ring go_example_cfg)"
    using example_ring_ok by (simp_all add: go_example_json_def)
  show ?thesis by (rule threat_becomes_mission [OF c example_fire example_shot_ok(7,1-6) example_reading_pays])
qed

section \<open>From the drone to the ledger\<close>



section \<open>From the ledger to the explorer\<close>

text \<open>
  The node answers a query with a JSON text whose \<open>result.response\<close> holds the code, the value in base64 and the log of what
  the application gave, beside members the client does not read.
\<close>

definition node_answers :: "string \<Rightarrow> network \<Rightarrow> QueryResponse \<Rightarrow> bool" where
  "node_answers url net r \<longleftrightarrow>
     answers get_retryable (net_get net (url @ ''/abci_query?path='' @ [CHR 0x22] @ ''state'' @ [CHR 0x22]))
       (\<lambda>body. decode_abci go_rpc_json body = Some \<lparr>abci_Code = q_Code r, abci_Value = q_Value r, abci_Log = q_Log r\<rparr>)"

text \<open>The scan behind the \<open>state\<close> query splits keys at colons and keeps the second part, so no name it collects holds one.\<close>

lemma collected_names:
  assumes "CHR '':'' \<in> set n" "B n = None" "R n = None"
  shows "fst (collect_state es (B, R)) n = None \<and> snd (collect_state es (B, R)) n = None"
  using assms(2,3)
proof (induction es "(B, R)" arbitrary: B R rule: collect_state.induct)
  case (2 key val rest B R)
  have "n \<noteq> Split key CHR '':'' ! 1" if prefix: "HasPrefix key ''balance:'' \<or> HasPrefix key ''report:''"
  proof -
    obtain s where "key = ''balance'' @ CHR '':'' # s \<or> key = ''report'' @ CHR '':'' # s"
      using prefix by (auto simp: HasPrefix_iff)
    then have "\<exists>p. Split key CHR '':'' = p # Split s CHR '':''" by (auto simp: Split_append)
    then have "Split key CHR '':'' ! 1 \<in> set (Split s CHR '':'')" by (cases "Split s CHR '':''") auto
    then show ?thesis using Split_fields assms(1) by metis
  qed
  then show ?case using 2 by (auto simp: Let_def)
qed simp

text \<open>C31. The explorer shows the ledger. When the node answers the broker's query with what the application gave, the
  answer of \<open>/explorer\<close> is the JSON text of a table of balances and a table of reports. They are exactly those of the ledger if
  no key of a balance or a report holds a second colon; in any case no name that holds a colon is in them, so a report for
  such an event is on file and never shown under its name.\<close>

theorem explorer_shows_ledger:
  assumes "leveldb_ok L" "cfg_rpc cfg = go_rpc_json" "cfg_ledger cfg = NewLedgerClient url"
    and "node_answers url net (Query L go_marshal_state db ''state'')"
  shows "\<exists>balances reports. handleExplorer cfg net ''GET'' = reply 200 (go_marshal_state balances reports) \<and>
    ((\<forall>k. db_Get L db k \<noteq> None \<longrightarrow> HasPrefix k ''balance:'' \<or> HasPrefix k ''report:'' \<longrightarrow> plain_key k) \<longrightarrow>
       balances = bal (ledger_abs L db) \<and> reports = reps (ledger_abs L db)) \<and>
    (\<forall>n. CHR '':'' \<in> set n \<longrightarrow> balances n = None \<and> reports n = None)"
proof -
  obtain B R where c: "collect_state (db_Iter L db) (Map.empty, Map.empty) = (B, R)" by fastforce
  then have q: "Query L go_marshal_state db ''state'' = \<lparr>q_Code = 0, q_Value = go_marshal_state B R, q_Log = []\<rparr>"
    by (simp add: Query_def)
  have "\<not> get_retryable 200" "CometBFTUrl (NewLedgerClient url) = url" by (simp_all add: get_retryable_def NewLedgerClient_def)
  then have "QueryGlobalState go_rpc_json net (NewLedgerClient url) = Inr (go_marshal_state B R)"
    using answered_request [OF assms(4) [unfolded node_answers_def q] maxRetries_New, of url "decode_abci go_rpc_json"]
    unfolding QueryGlobalState_def GetJSON_def request_loop_spec Let_def by auto
  then have "handleExplorer cfg net ''GET'' = reply 200 (go_marshal_state B R)" using assms(2,3) by (simp add: handleExplorer_def)
  moreover have "B = bal (ledger_abs L db) \<and> R = reps (ledger_abs L db)"
    if "\<forall>k. db_Get L db k \<noteq> None \<longrightarrow> HasPrefix k ''balance:'' \<or> HasPrefix k ''report:'' \<longrightarrow> plain_key k"
    using collect_state_complete [OF assms(1) that] c by simp
  moreover have "B n = None \<and> R n = None" if "CHR '':'' \<in> set n" for n
    using collected_names [OF that, of Map.empty Map.empty "db_Iter L db"] c by simp
  ultimately show ?thesis by blast
qed

text \<open>An answer with all the members a CometBFT node writes.\<close>

definition abci_answer :: "QueryResponse \<Rightarrow> json" where
  "abci_answer r =
     JObj [(''jsonrpc'', JStr ''2.0''), (''id'', JNum (Itoa (- 1))), (''result'', JObj [(''response'', JObj
       [(''code'', JNum (uint_text (q_Code r))), (''log'', JStr (q_Log r)), (''info'', JStr []), (''index'', JStr (Itoa 0)),
        (''key'', JNull), (''value'', JStr (base64_EncodeToString (q_Value r))), (''proofOps'', JNull), (''height'', JStr (Itoa 7)),
        (''codespace'', JStr [])])])]"

lemma abci_names [simp]:
  "to_valid ''jsonrpc'' = ''jsonrpc''" "to_valid ''id'' = ''id''" "to_valid ''response'' = ''response''" "to_valid ''info'' = ''info''"
  "to_valid ''index'' = ''index''" "to_valid ''key'' = ''key''" "to_valid ''value'' = ''value''" "to_valid ''proofOps'' = ''proofOps''"
  "to_valid ''height'' = ''height''" "to_valid ''codespace'' = ''codespace''"
  by (rule to_valid_ascii, simp add: byte_val_def)+

lemma abci_folds:
  "fold_key ''jsonrpc'' = ''JSONRPC''" "fold_key ''id'' = ''ID''" "fold_key ''result'' = ''RESULT''" "fold_key ''response'' = ''RESPONSE''"
  "fold_key ''info'' = ''INFO''" "fold_key ''index'' = ''INDEX''" "fold_key ''key'' = ''KEY''" "fold_key ''proofOps'' = ''PROOFOPS''"
  "fold_key ''height'' = ''HEIGHT''" "fold_key ''codespace'' = ''CODESPACE''" "fold_key ''code'' = ''CODE''"
  "fold_key ''value'' = ''VALUE''" "fold_key ''log'' = ''LOG''"
  by (simp_all add: fold_key.simps byte_val_def char_of_eqI)

lemma abci_answer_read:
  assumes "q_Code r < 2 ^ 32" "valid_utf8 (q_Log r)"
  shows "decode_abci go_rpc_json (print (abci_answer r)) = Some \<lparr>abci_Code = q_Code r, abci_Value = q_Value r, abci_Log = q_Log r\<rparr>"
proof -
  have b: "to_valid (base64_EncodeToString v) = base64_EncodeToString v" for v
    by (rule to_valid_valid, rule valid_ascii) (simp add: encoded_ascii)
  have c: "as_uint 32 (JNum (uint_text (q_Code r))) = Some (q_Code r)"
    using assms(1) by (simp add: as_uint.simps uint_text_def parse_uint_decimal)
  have "decode_abci go_rpc_json (Marshal (abci_answer r)) = Some \<lparr>abci_Code = q_Code r, abci_Value = q_Value r, abci_Log = q_Log r\<rparr>"
    unfolding go_rpc_json_def rpc_json.simps
    by (rule Unmarshal_Marshal)
      (use assms(2) b c in \<open>simp_all add: abci_answer_def ABCIQuery_fields_def find_field_def nested_def base64_Decode_Encode abci_folds\<close>)
  then show ?thesis by (simp add: Marshal_def)
qed

theorem explorer_shows_ledger_witness:
  "handleExplorer go_example_cfg
     \<lparr>net_post = (\<lambda>url body n. NoConnection),
      net_get = (\<lambda>url n. Answer 200 (print (abci_answer (Query example_leveldb go_marshal_state (example_db ''7'') ''state''))))\<rparr> ''GET'' =
   reply 200 (go_marshal_state (bal (ledger_abs example_leveldb (example_db ''7''))) (reps (ledger_abs example_leveldb (example_db ''7''))))"
proof -
  let ?r = "Query example_leveldb go_marshal_state (example_db ''7'') ''state''"
  let ?net = "\<lparr>net_post = (\<lambda>url body n. NoConnection), net_get = (\<lambda>url n. Answer 200 (print (abci_answer ?r)))\<rparr>"
  have p: "\<forall>k. db_Get example_leveldb (example_db ''7'') k \<noteq> None \<longrightarrow> HasPrefix k ''balance:'' \<or> HasPrefix k ''report:'' \<longrightarrow> plain_key k"
    by (simp add: example_leveldb_def example_db_def key_defs plain_key_def)
  have "q_Code ?r < 2 ^ 32" "valid_utf8 (q_Log ?r)" by (simp_all add: Query_def split: prod.split)
  from abci_answer_read [OF this] have n: "node_answers ''http://node'' ?net ?r"
    unfolding node_answers_def answers_def by (intro exI [of _ "0 :: nat"]) simp
  have c: "cfg_rpc go_example_cfg = go_rpc_json" "cfg_ledger go_example_cfg = NewLedgerClient ''http://node''" by simp_all
  from explorer_shows_ledger [OF example_leveldb_ok c n] p show ?thesis by auto
qed

end
