(* ===== verification/Swarm.thy ===== *)
theory Swarm
  imports Wire_Ends
begin

text \<open>
  Several brokers together. A state holds every broker, the messages any of them has ever sent, and,
  for the statement, the missions the ledger has approved. A step is one event of one broker with inputs
  of any kind, the arrival at one broker of a gossip message some broker has sent (late, repeated or
  out of order), or the restart of a broker with an empty memory. Only brokers post to
  \<open>/internal/shadow/sync\<close>; everything else may come from anyone.
\<close>

section \<open>Brokers and messages\<close>

record 'r swarm =
  node :: "nat \<Rightarrow> 'r broker"
  sent :: "message set"
  approved :: "Mission set"

text \<open>The mission a packet leads to, when the broker owns its sector and the ledger approves it.\<close>

definition approvals :: "('r, 'sk) broker_cfg \<Rightarrow> process_env \<Rightarrow> bytes \<Rightarrow> 'r broker \<Rightarrow> Mission set" where
  "approvals cfg env raw s =
     (case unmarshal_data (cfg_json cfg) raw of
        None \<Rightarrow> {}
      | Some data \<Rightarrow>
          if accepts data s \<and> \<not> elsewhere cfg env data s \<and> pays cfg env data then {mission_of env data s} else {})"

fun step_approvals :: "('r, 'sk) broker_cfg \<Rightarrow> 'r broker \<Rightarrow> broker_event \<Rightarrow> Mission set" where
  "step_approvals cfg s (EWork env) =
     (case packetsChan s of [] \<Rightarrow> {} | raw # rest \<Rightarrow> approvals cfg env raw (s\<lparr>packetsChan := rest\<rparr>))"
| "step_approvals cfg s _ = {}"

fun is_gossip :: "broker_event \<Rightarrow> bool" where
  "is_gossip (ESync now verb body) = True"
| "is_gossip _ = False"

inductive swarm_step :: "('r, 'sk) broker_cfg \<Rightarrow> 'r swarm \<Rightarrow> 'r swarm \<Rightarrow> bool" for cfg where
  act: "\<not> is_gossip ev \<Longrightarrow> broker_step cfg (node w i) ev = Returned s u \<Longrightarrow>
    swarm_step cfg w \<lparr>node = (node w)(i := s), sent = sent w \<union> set (outbox s), approved = approved w \<union> step_approvals cfg (node w i) ev\<rparr>"
| hear: "HTTPPost url body \<in> sent w \<Longrightarrow> broker_step cfg (node w i) (ESync now ''POST'' body) = Returned s u \<Longrightarrow>
    swarm_step cfg w (w\<lparr>node := (node w)(i := s)\<rparr>)"
| restart: "swarm_step cfg w (w\<lparr>node := (node w)(i := NewBroker cfg)\<rparr>)"

definition swarm_start :: "('r, 'sk) broker_cfg \<Rightarrow> 'r swarm" where
  "swarm_start cfg = \<lparr>node = (\<lambda>_. NewBroker cfg), sent = {}, approved = {}\<rparr>"

inductive swarm_reach :: "('r, 'sk) broker_cfg \<Rightarrow> 'r swarm \<Rightarrow> bool" for cfg where
  start: "swarm_reach cfg (swarm_start cfg)"
| step: "swarm_reach cfg w \<Longrightarrow> swarm_step cfg w w' \<Longrightarrow> swarm_reach cfg w'"

inductive_cases swarm_stepE: "swarm_step cfg w w'"

section \<open>One broker\<close>

text \<open>The bodies of gossip: approvals of the missions in \<open>A\<close>, and refusals.\<close>

definition fresh :: "Mission \<Rightarrow> bool" where
  "fresh m \<longleftrightarrow> valid_mission m \<and> LeaseExpires m = 0"

definition gossip :: "('r, 'sk) broker_cfg \<Rightarrow> Mission set \<Rightarrow> bytes \<Rightarrow> bool" where
  "gossip cfg A body \<longleftrightarrow>
     (\<exists>m. fresh m \<and> body = marshal_sync (cfg_json cfg) ''NACK'' (event_of m) m) \<or>
     (\<exists>m \<in> A. body = marshal_sync (cfg_json cfg) ''ACK'' (event_of m) m)"

text \<open>What a step adds to the events a broker holds, to its shadow buffer and to its messages.\<close>

definition adds :: "('r, 'sk) broker_cfg \<Rightarrow> Mission set \<Rightarrow> 'r broker \<Rightarrow> 'r broker \<Rightarrow> bool" where
  "adds cfg A s s' \<longleftrightarrow>
     held s' \<subseteq> held s \<union> dom (Buffer (ShadowBuffer s)) \<union> event_of ` A \<and>
     ran (Buffer (ShadowBuffer s')) \<subseteq> ran (Buffer (ShadowBuffer s)) \<and>
     (\<forall>url body. HTTPPost url body \<in> set (outbox s') \<longrightarrow> HTTPPost url body \<in> set (outbox s) \<or> gossip cfg A body)"

lemma adds_same: "held s' \<subseteq> held s \<Longrightarrow> ShadowBuffer s' = ShadowBuffer s \<Longrightarrow> outbox s' = outbox s \<Longrightarrow> adds cfg A s s'"
  by (auto simp: adds_def)

lemma mission_of_fresh: "valid_data data \<Longrightarrow> fresh (mission_of env data s)"
  by (simp add: fresh_def valid_mission_def mission_of_def zero_Mission_def)

lemma process_skips: "unmarshal_data (cfg_json cfg) raw = None \<Longrightarrow> process cfg env raw s = s"
  by (simp add: process_def)

lemma forwardPacket_no_post: "HTTPPost url body \<notin> set (forwardPacket r ip p)"
  by (cases r) (simp_all add: forwardPacket_def)

lemma sync_posts_body:
  "HTTPPost url body \<in> set (sync_posts cfg env a m s) \<Longrightarrow> body = marshal_sync (cfg_json cfg) a (event_of m) m"
  by (auto simp: sync_posts_def)

lemma approvals_fresh:
  assumes "cfg_json cfg = go_broker_json T f g" "m \<in> approvals cfg env raw s"
  shows "fresh m"
  using assms by (auto simp: approvals_def split: option.splits if_splits dest!: packet_valid intro: mission_of_fresh)

lemma adds_process:
  assumes "cfg_json cfg = go_broker_json T f g" "broker_inv s"
  shows "adds cfg (approvals cfg env raw s) s (process cfg env raw s)"
proof (cases "unmarshal_data (cfg_json cfg) raw")
  case None
  then show ?thesis by (simp add: process_skips adds_same)
next
  case (Some data)
  then have v: "fresh (mission_of env data s)" using mission_of_fresh [OF packet_valid [of T f g raw data]] assms(1) by simp
  consider "\<not> accepts data s" | "accepts data s" "elsewhere cfg env data s" | "accepts data s" "\<not> elsewhere cfg env data s" by blast
  then show ?thesis
  proof cases
    case 1
    then show ?thesis using process_ignores [OF Some] by (simp add: adds_same)
  next
    case 2
    then show ?thesis
      using process_forwards [OF Some 2] forwardPacket_no_post by (auto simp: adds_def held_def)
  next
    case 3
    let ?m = "mission_of env data s" and ?A = "approvals cfg env raw s"
    have A: "?A = (if pays cfg env data then {?m} else {})" using Some 3 by (simp add: approvals_def)
    have "gossip cfg ?A body" if "HTTPPost url body \<in> set (sync_posts cfg env (if pays cfg env data then ''ACK'' else ''NACK'') ?m s)" for url body
      using sync_posts_body [OF that] A v by (auto simp: gossip_def split: if_splits)
    then show ?thesis
      using process_owns [OF Some 3] A assms(2) by (auto simp: adds_def held_def broker_inv_def split: if_splits)
  qed
qed

lemma outbox_pending: "outbox (out_state (startPendingJanitor_range now order s)) = outbox s"
proof (induction order arbitrary: s)
  case (Cons e order)
  then show ?case by (cases "loggable e") (simp_all split: option.split)
qed simp

lemma held_pending: "broker_inv s \<Longrightarrow> held (out_state (startPendingJanitor_range now order s)) \<subseteq> held s"
proof (induction order arbitrary: s)
  case (Cons e order)
  show ?case
  proof (cases "\<exists>p. pendingMissions s e = Some p \<and> now - CheckoutTime p > 60 * Second")
    case True
    then obtain p where p: "pendingMissions s e = Some p" "now - CheckoutTime p > 60 * Second" by blast
    let ?s = "s\<lparr>pendingMissions := (pendingMissions s)(e := None), Queue := Enqueue (Queue s) (pm_Mission p)\<rparr>"
    have i: "broker_inv ?s" using Cons.prems by (simp add: broker_inv_def pending_inv_update pq.invar_enqueue)
    have "event_of (pm_Mission p) = e" using Cons.prems p by (simp add: broker_inv_def pending_inv_def)
    then have "held ?s \<subseteq> held s" using Cons.prems p by (auto simp: held_def broker_inv_def)
    moreover have "out_state (startPendingJanitor_range now (e # order) s) \<in> {?s, out_state (startPendingJanitor_range now order ?s)}"
      using p by (cases "loggable e") auto
    ultimately show ?thesis using Cons.IH [OF i] by auto
  next
    case False
    then show ?thesis using Cons by (auto split: option.splits)
  qed
qed simp

lemma held_pop: "broker_inv s \<Longrightarrow> held (out_state (HandleQueuePop cfg now verb s)) \<subseteq> held s"
proof (cases "verb = ''GET'' \<and> snd (snd (Dequeue (Queue s)))")
  case True
  then obtain q m where d: "Dequeue (Queue s) = (q, m, True)" by (cases "Dequeue (Queue s)") auto
  moreover assume "broker_inv s"
  ultimately have "queued (Queue s) = insert (event_of m) (queued q)" using queued_Dequeue by (auto simp: broker_inv_def)
  with True d show ?thesis by (auto simp: held_def HandleQueuePop_def Let_def)
next
  case False
  then show ?thesis by (auto simp: held_def HandleQueuePop_def Dequeue_def Let_def split: prod.splits if_splits)
qed

lemma held_resolve: "broker_inv s \<Longrightarrow> held (out_state (HandleQueueResolve cfg verb body s)) \<subseteq> held s"
  by (auto simp: held_def broker_inv_def HandleQueueResolve_def Let_def split: option.splits if_splits)

lemma frame_pop:
  "ShadowBuffer (out_state (HandleQueuePop cfg now verb s)) = ShadowBuffer s \<and> outbox (out_state (HandleQueuePop cfg now verb s)) = outbox s"
  by (auto simp: HandleQueuePop_def Let_def split: prod.split)

lemma frame_resolve:
  "ShadowBuffer (out_state (HandleQueueResolve cfg verb body s)) = ShadowBuffer s \<and>
   outbox (out_state (HandleQueueResolve cfg verb body s)) = outbox s"
  by (auto simp: HandleQueueResolve_def Let_def split: option.split prod.split)

lemma adds_rescue:
  assumes "broker_inv s"
  shows "adds cfg {} s (out_state (broker_step cfg s (ERescue addrs order)))"
proof (cases "callbacks s = 0")
  case False
  let ?r = "RescueOrphanedMissions (cfg_ring cfg) addrs (Router s) order (ShadowBuffer s) (Queue s)"
  obtain sb q where o: "out_state ?r = (sb, q)" by fastforce
  have inv: "shadow_inv (ShadowBuffer s)" "pq_invar (Queue s)" using assms by (auto simp: broker_inv_def)
  have c: "shadow_inv sb" "map_values (Buffer sb) + pq_contents q = map_values (Buffer (ShadowBuffer s)) + pq_contents (Queue s)"
    using rescue_range_conserves [OF inv] o unfolding RescueOrphanedMissions_def by blast+
  then have s: "ran (Buffer sb) \<union> set_mset (pq_contents q) = ran (Buffer (ShadowBuffer s)) \<union> set_mset (pq_contents (Queue s))"
    using inv(1) c(1) set_mset_union [of "map_values (Buffer sb)" "pq_contents q"] set_map_values unfolding c(2) shadow_inv_def
    by (metis set_mset_union)
  have "event_of ` ran (Buffer (ShadowBuffer s)) \<subseteq> dom (Buffer (ShadowBuffer s))" using inv(1) by (auto simp: shadow_inv_def ran_def)
  then have "queued q \<subseteq> queued (Queue s) \<union> dom (Buffer (ShadowBuffer s))" using s unfolding queued_def by blast
  moreover obtain R where "pq_contents q = pq_contents (Queue s) + R"
    using rescue_range_mono [OF inv(2)] o unfolding RescueOrphanedMissions_def by (metis snd_conv mset_subset_eq_exists_conv)
  then have "map_values (Buffer (ShadowBuffer s)) = map_values (Buffer sb) + R" using c(2) by (simp add: ac_simps)
  then have "ran (Buffer sb) \<subseteq> ran (Buffer (ShadowBuffer s))"
    using set_map_values c(1) inv(1) unfolding shadow_inv_def by (metis Un_upper1 set_mset_union)
  moreover have "out_state (broker_step cfg s (ERescue addrs order)) = s\<lparr>callbacks := callbacks s - 1, ShadowBuffer := sb, Queue := q\<rparr>"
    using o False by (cases ?r) auto
  ultimately show ?thesis by (auto simp: adds_def held_def)
qed (simp add: adds_same)

lemma adds_act:
  assumes "cfg_json cfg = go_broker_json T f g" "broker_inv s" "\<not> is_gossip ev"
  shows "adds cfg (step_approvals cfg s ev) s (out_state (broker_step cfg s ev))"
proof (cases ev)
  case (EDatagram d)
  then show ?thesis by (cases d) (auto simp: startUDPIngestion_turn_def held_def Let_def intro!: adds_same)
next
  case (EWork env)
  have "broker_inv (s\<lparr>packetsChan := rest\<rparr>)" for rest using assms(2) by (simp add: broker_inv_def)
  then have "adds cfg (approvals cfg env raw (s\<lparr>packetsChan := rest\<rparr>)) (s\<lparr>packetsChan := rest\<rparr>) (process cfg env raw (s\<lparr>packetsChan := rest\<rparr>))" for raw rest
    by (rule adds_process [OF assms(1)])
  then show ?thesis using EWork by (cases "packetsChan s") (auto simp: worker_turn_def adds_def held_def)
next
  case (EPop now verb)
  then show ?thesis using held_pop [OF assms(2), of cfg now verb] frame_pop [of cfg now verb s] by (auto simp: recovered_out_state intro!: adds_same)
next
  case (EResolve verb body)
  then show ?thesis using held_resolve [OF assms(2), of cfg verb body] frame_resolve [of cfg verb body s] by (auto simp: recovered_out_state intro!: adds_same)
next
  case (EPending now order)
  then show ?thesis using held_pending [OF assms(2)] shadow_pending outbox_pending by (auto intro!: adds_same)
next
  case EAging
  then show ?thesis using queued_aging [of "Queue s"] assms(2) by (auto simp: held_def broker_inv_def intro!: adds_same)
next
  case (EWaiting now order)
  then show ?thesis by (cases "startJanitor_range now order (Unverified s)") (auto simp: held_def intro!: adds_same)
next
  case (EForget now order)
  then show ?thesis by (simp add: held_def adds_same)
next
  case (ETopology ips)
  then show ?thesis by (auto simp: held_def split: prod.splits intro!: adds_same)
next
  case (ERescue addrs order)
  then show ?thesis using adds_rescue [OF assms(2), of cfg addrs order] by simp
qed (use assms(3) in simp)

section \<open>The swarm\<close>

text \<open>
  Every broker's invariant, and: what a broker holds or keeps as a copy was approved, approved
  missions are fresh, and the messages on their way are refusals or approvals of approved missions.
\<close>

definition swarm_inv :: "('r, 'sk) broker_cfg \<Rightarrow> 'r swarm \<Rightarrow> bool" where
  "swarm_inv cfg w \<longleftrightarrow>
     (\<forall>i. broker_inv (node w i) \<and> held (node w i) \<subseteq> event_of ` approved w \<and>
        ran (Buffer (ShadowBuffer (node w i))) \<subseteq> approved w \<and>
        (\<forall>url body. HTTPPost url body \<in> set (outbox (node w i)) \<longrightarrow> HTTPPost url body \<in> sent w)) \<and>
     (\<forall>m \<in> approved w. fresh m) \<and>
     (\<forall>url body. HTTPPost url body \<in> sent w \<longrightarrow> gossip cfg (approved w) body)"

lemma gossip_mono: "gossip cfg A body \<Longrightarrow> A \<subseteq> B \<Longrightarrow> gossip cfg B body"
  by (auto simp: gossip_def)

lemma step_approvals_fresh:
  assumes "cfg_json cfg = go_broker_json T f g" "m \<in> step_approvals cfg s ev"
  shows "fresh m"
  using assms approvals_fresh [OF assms(1)] by (cases ev) (auto split: list.splits)

lemma New_empty: "held (NewBroker cfg) = {}" "Buffer (ShadowBuffer (NewBroker cfg)) = Map.empty" "outbox (NewBroker cfg) = []"
  using names_New [of cfg] by (auto simp: names_def NewBroker_def NewShadowBufferManager_def)

lemma swarm_inv_start: "swarm_inv cfg (swarm_start cfg)"
  by (simp add: swarm_inv_def swarm_start_def New_empty)

lemma swarm_inv_act:
  assumes "cfg_json cfg = go_broker_json T f g" "swarm_inv cfg w" "\<not> is_gossip ev" "broker_step cfg (node w i) ev = Returned s u"
  shows "swarm_inv cfg \<lparr>node = (node w)(i := s), sent = sent w \<union> set (outbox s), approved = approved w \<union> step_approvals cfg (node w i) ev\<rparr>"
proof -
  let ?A = "step_approvals cfg (node w i) ev"
  have i: "broker_inv (node w i)" "held (node w i) \<subseteq> event_of ` approved w" "ran (Buffer (ShadowBuffer (node w i))) \<subseteq> approved w"
    using assms(2) by (auto simp: swarm_inv_def)
  then have "dom (Buffer (ShadowBuffer (node w i))) \<subseteq> event_of ` approved w"
    by (fastforce simp: broker_inv_def shadow_inv_def ran_def)
  moreover have a: "adds cfg ?A (node w i) s" using adds_act [OF assms(1) i(1) assms(3)] assms(4) by simp
  ultimately have "held s \<subseteq> event_of ` (approved w \<union> ?A)" "ran (Buffer (ShadowBuffer s)) \<subseteq> approved w \<union> ?A"
    using i(2,3) unfolding adds_def image_Un by blast+
  moreover have "broker_inv s" using keeps_step [of cfg ev "node w i"] assms(4) i(1) by (simp add: keeps_def)
  moreover have "gossip cfg (approved w \<union> ?A) body" if "HTTPPost url body \<in> sent w \<union> set (outbox s)" for url body
    using that a assms(2) by (fastforce simp: adds_def swarm_inv_def intro: gossip_mono)
  moreover have "held (node w j) \<subseteq> event_of ` (approved w \<union> ?A)" for j
    using assms(2) unfolding swarm_inv_def image_Un by blast
  ultimately show ?thesis
    using assms(2) step_approvals_fresh [OF assms(1), of _ "node w i" ev] unfolding swarm_inv_def by (auto simp del: image_Un split: if_splits)
qed

lemma gossip_decodes:
  assumes "cfg_json cfg = go_broker_json T f g" "time_ok T" "time_Marshal T 0 \<noteq> None" "\<forall>m \<in> A. fresh m" "gossip cfg A body"
    and "decode_sync (cfg_json cfg) body = Some (''ACK'', e, m)"
  shows "m \<in> A"
proof -
  have rb: "decode_sync (cfg_json cfg) (marshal_sync (cfg_json cfg) a (event_of x) x) = Some (a, event_of x, x)"
    if "fresh x" "valid_utf8 a" for a x
    unfolding assms(1) using that assms(2,3)
    by (intro sync_read_back) (auto simp: sendable_def fresh_def valid_mission_def valid_data_def)
  have "valid_utf8 ''ACK''" "valid_utf8 ''NACK''" by (rule valid_ascii, simp add: byte_val_def)+
  then show ?thesis using assms(4-6) rb by (fastforce simp: gossip_def)
qed

lemma swarm_inv_hear:
  assumes "cfg_json cfg = go_broker_json T f g" "time_ok T" "time_Marshal T 0 \<noteq> None" "swarm_inv cfg w"
    and "HTTPPost url body \<in> sent w" "broker_step cfg (node w i) (ESync now ''POST'' body) = Returned s u"
  shows "swarm_inv cfg (w\<lparr>node := (node w)(i := s)\<rparr>)"
proof -
  have s: "s = out_state (HandleShadowSync cfg now ''POST'' body (node w i))" using assms(6) by (simp add: recovered_out_state)
  have "held s = held (node w i)" using sync_frame [of cfg now "''POST''" body "node w i"] by (simp add: s held_def)
  moreover have "broker_inv s" using keeps_sync [of "node w i" cfg now "''POST''" body] assms(4) by (simp add: s keeps_def swarm_inv_def)
  moreover have "outbox s = outbox (node w i)"
    unfolding s by (cases "decode_sync (cfg_json cfg) body") (auto simp: HandleShadowSync_def Let_def split: prod.split outcome.split)
  moreover have "ran (Buffer (ShadowBuffer s)) \<subseteq> approved w"
  proof (cases "\<exists>e m. decode_sync (cfg_json cfg) body = Some (''ACK'', e, m) \<and> e \<noteq> []")
    case True
    then obtain e m where d: "decode_sync (cfg_json cfg) body = Some (''ACK'', e, m)" "e \<noteq> []" by blast
    have "m \<in> approved w" using gossip_decodes [OF assms(1-3) _ _ d(1)] assms(4,5) by (auto simp: swarm_inv_def)
    moreover have "ran (Buffer (ShadowBuffer s)) \<subseteq> insert m (ran (Buffer (ShadowBuffer (node w i))))"
      using sync_ACK_state [OF d] by (auto simp: s shadow_Store_def ran_def)
    ultimately show ?thesis using assms(4) by (auto simp: swarm_inv_def)
  next
    case False
    then have "ShadowBuffer s = ShadowBuffer (node w i)" unfolding s by (intro sync_other_state) blast
    then show ?thesis using assms(4) by (simp add: swarm_inv_def)
  qed
  ultimately show ?thesis using assms(4) unfolding swarm_inv_def by (auto split: if_splits)
qed

lemma swarm_inv_reach:
  assumes "cfg_json cfg = go_broker_json T f g" "time_ok T" "time_Marshal T 0 \<noteq> None" "swarm_reach cfg w"
  shows "swarm_inv cfg w"
  using assms(4)
proof induction
  case (step w w')
  from step.hyps(2) show ?case
  proof cases
    case (restart i)
    then show ?thesis using step.IH by (auto simp: swarm_inv_def New_empty)
  qed (use step.IH swarm_inv_act [OF assms(1)] swarm_inv_hear [OF assms(1-3)] in auto)
qed (rule swarm_inv_start)

text \<open>C9. No broker acts on a mission nobody paid for. In a swarm where only brokers gossip, through any
  interleaving of their work, of packets and requests from anyone, of late, repeated or reordered gossip,
  and of restarts: every event a broker has queued or checked out was approved by the ledger at some
  broker, and every copy in a shadow buffer is exactly the mission that was approved.\<close>

theorem swarm_only_approved:
  assumes "cfg_json cfg = go_broker_json T f g" "time_ok T" "time_Marshal T 0 \<noteq> None" "swarm_reach cfg w"
  shows "held (node w i) \<subseteq> event_of ` approved w \<and>
    (Buffer (ShadowBuffer (node w i)) e = Some m \<longrightarrow> m \<in> approved w \<and> event_of m = e)"
  using swarm_inv_reach [OF assms] by (auto simp: swarm_inv_def broker_inv_def shadow_inv_def ran_def)

text \<open>A swarm in which one broker has taken in, paid for and queued a sensor's packet.\<close>

lemma example_reading_decoded:
  "unmarshal_data (cfg_json go_example_cfg) (take 1024 (Marshal (json_of_Telemetry example_reading))) = Some (data_of_telemetry example_reading)"
proof -
  have l: "length (Marshal (json_of_Telemetry example_reading)) \<le> 1024"
    by (rule length_Marshal_Telemetry)
      (simp_all add: example_reading_def NewTelemetry_def example_digest_def sensor_name_def length_Itoa [THEN order_trans])
  have "valid_data (data_of_telemetry example_reading)"
    using fire_threat [OF example_fire example_shot_ok(7,1-3)] by blast
  then show ?thesis using telemetry_read_back l by (simp add: go_example_json_def)
qed

theorem swarm_only_approved_witness:
  "\<exists>w. swarm_reach go_example_cfg w \<and> ''event-0001'' \<in> held (node w 0) \<and> held (node w 0) \<subseteq> event_of ` approved w"
proof -
  let ?c = go_example_cfg and ?s = "NewBroker go_example_cfg" and ?d = "data_of_telemetry example_reading"
  let ?raw = "take 1024 (Marshal (json_of_Telemetry example_reading))"
  let ?w1 = "\<lparr>node = (node (swarm_start ?c))(0 := ?s\<lparr>packetsChan := [?raw]\<rparr>), sent = {}, approved = {}\<rparr>"
  let ?s2 = "process ?c go_example_env ?raw ?s"
  let ?w2 = "\<lparr>node = (node ?w1)(0 := ?s2), sent = sent ?w1 \<union> set (outbox ?s2), approved = approved ?w1 \<union> step_approvals ?c (node ?w1 0) (EWork go_example_env)\<rparr>"
  have c: "?s\<lparr>packetsChan := []\<rparr> = ?s" by (simp add: NewBroker_def)
  have "swarm_step ?c (swarm_start ?c) ?w1"
    using swarm_step.act [of "EDatagram (Some (Marshal (json_of_Telemetry example_reading)))" ?c "swarm_start ?c" 0 "?s\<lparr>packetsChan := [?raw]\<rparr>" "()"]
    by (simp add: swarm_start_def startUDPIngestion_turn_def NewBroker_def)
  then have "swarm_reach ?c ?w1" by (rule swarm_reach.step [OF swarm_reach.start])
  moreover have "swarm_step ?c ?w1 ?w2"
    by (rule swarm_step.act) (use c in \<open>simp_all add: worker_turn_def\<close>)
  ultimately have r: "swarm_reach ?c ?w2" by (rule swarm_reach.step)
  have j: "cfg_json ?c = go_broker_json example_time (\<lambda>_. None) (\<lambda>_. [])" by (simp add: go_example_json_def)
  have acc: "accepts ?d ?s" by (rule New_accepts) (simp_all add: data_of_telemetry_def example_reading_def NewTelemetry_def sensor_name_def)
  have own: "\<not> elsewhere ?c go_example_env ?d ?s" using New_not_elsewhere [of ?c] example_ring_ok by simp
  have "Queue ?s2 = Enqueue (New 100) (mission_of go_example_env ?d ?s)"
    using process_owns [OF example_reading_decoded acc own] example_reading_pays by (simp add: NewBroker_def)
  then have "''event-0001'' \<in> held (node ?w2 0)"
    by (simp add: held_def queued_def pq.contents_enqueue data_of_telemetry_def example_reading_def NewTelemetry_def)
  then show ?thesis using r swarm_only_approved [OF j example_time_ok r, of 0] by blast
qed

end
