(* ===== verification/Process.thy ===== *)
theory Process
  imports Broker Station Drone Sensor
begin

text \<open>
  The processes: what \<open>main\<close> of each command makes of its environment, and the routing of HTTP requests to the
  handlers. The environment is a partial map; a \<open>.env\<close> file of the sensor is part of it. A request has a
  method, a path, the parsed query and a body; \<open>net/http\<close> redirects paths that are not clean, so only clean
  ones arrive here.
\<close>

section \<open>Environment\<close>

type_synonym environment = "string \<rightharpoonup> string"

definition getEnv :: "environment \<Rightarrow> string \<Rightarrow> string \<Rightarrow> string" where
  "getEnv env key fallback = (case env key of Some val \<Rightarrow> val | None \<Rightarrow> fallback)"

text \<open>\<open>os.Getenv\<close>: an unset variable reads as the empty string.\<close>

definition Getenv :: "environment \<Rightarrow> string \<Rightarrow> string" where
  "Getenv env key = (case env key of Some val \<Rightarrow> val | None \<Rightarrow> [])"

section \<open>The broker\<close>

record ('r, 'sk) broker_process =
  udpPort :: string
  httpPort :: string
  bp_cfg :: "('r, 'sk) broker_cfg"
  bp_state :: "'r broker"

definition broker_main ::
    "environment \<Rightarrow> 'r consistent \<Rightarrow> 'sk ed25519 \<Rightarrow> rpc_json \<Rightarrow> broker_json \<Rightarrow> ('r, 'sk) broker_process" where
  "broker_main env C E R J =
     (let udp = getEnv env ''UDP_PORT'' ''9000'';
          http = getEnv env ''HTTP_PORT'' ''8080'';
          cometURL = getEnv env ''COMET_URL'' ''http://tasks.cometbft:26657'';
          cfg = \<lparr>cfg_ring = C, cfg_crypto = E, cfg_rpc = R, cfg_json = J, cfg_ledger = NewLedgerClient cometURL\<rparr>
      in \<lparr>udpPort = udp, httpPort = http, bp_cfg = cfg, bp_state = NewBroker cfg\<rparr>)"

definition not_found :: response where
  "not_found = http_Error ''404 page not found'' 404"

definition broker_SetupRouter ::
    "('r, 'sk) broker_cfg \<Rightarrow> network \<Rightarrow> instant \<Rightarrow> string \<Rightarrow> string \<Rightarrow> bytes \<Rightarrow> 'r broker \<Rightarrow> ('r broker, response) outcome" where
  "broker_SetupRouter cfg net now verb path body s =
     (if path = ''/health'' then Returned s (healthCheck cfg now)
      else if path = ''/queue/pop'' then HandleQueuePop cfg now verb s
      else if path = ''/queue/resolve'' then HandleQueueResolve cfg verb body s
      else if path = ''/explorer'' then Returned s (handleExplorer cfg net verb)
      else if path = ''/internal/shadow/sync'' then HandleShadowSync cfg now verb body s
      else if path = ''/internal/topology/sync'' then Returned s (topologySync cfg verb body)
      else Returned s not_found)"

text \<open>A request is one of the broker's steps, or leaves it as it is.\<close>

lemma broker_request_steps:
  "recovered (broker_SetupRouter cfg net now verb path body s) \<in>
     {Returned s ()} \<union> broker_step cfg s ` {EPop now verb, EResolve verb body, ESync now verb body}"
  by (simp add: broker_SetupRouter_def)

section \<open>The station\<close>

definition station_main :: "environment \<Rightarrow> string \<times> StationServer" where
  "station_main env =
     (let port = getEnv env ''PORT'' ''8081''; brokerURL = getEnv env ''BROKER_URL'' ''http://tasks.broker:8080''
      in (port, NewStationServer brokerURL))"

definition station_SetupRouter ::
    "station_json \<Rightarrow> (string \<Rightarrow> nat \<Rightarrow> attempt) \<Rightarrow> post_net \<Rightarrow> string \<Rightarrow> instant \<Rightarrow> instant \<Rightarrow> string \<Rightarrow> (string \<Rightarrow> string) \<Rightarrow> bytes
      \<Rightarrow> StationServer \<Rightarrow> (StationServer, response) outcome" where
  "station_SetupRouter J net post hostname now now' path query body s =
     (if path = ''/health'' then Returned s (reply 200 [])
      else if path = ''/api/drone/register'' then (let (s, r) = handleRegister J now hostname body s in Returned s r)
      else if path = ''/api/mission/pull'' then handleMissionPull J net now (query ''drone_id'') s
      else if path = ''/api/mission/renew'' then (let (s, r) = handleMissionRenew now now' (query ''event_id'') s in Returned s r)
      else if path = ''/api/mission/ack'' then handleMissionAck J post body s
      else Returned s not_found)"

lemma station_request_steps:
  "recovered (station_SetupRouter J net post hostname now now' path query body s) \<in>
     {Returned s ()} \<union> station_step J s ` {SRegister now hostname body, SPull net now (query ''drone_id''),
       SRenew now now' (query ''event_id''), SAck post body}"
  by (simp add: station_SetupRouter_def case_prod_beta Let_def)

section \<open>The drone\<close>

definition drone_main :: "environment \<Rightarrow> nat \<Rightarrow> Drone" where
  "drone_main env r =
     (let droneID = Getenv env ''DRONE_ID'';
          droneID = (if droneID = [] then ''UAV-'' @ Itoa (int r mod 9000 + 1000) else droneID);
          stationURL = Getenv env ''STATION_URL'';
          stationURL = (if stationURL = [] then ''http://tasks.station:8081'' else stationURL);
          cometURL = Getenv env ''COMET_URL'';
          cometURL = (if cometURL = [] then ''http://comet_node:26657'' else cometURL)
      in NewDrone droneID stationURL cometURL)"

lemma drone_main_named: "ID (drone_main env r) \<noteq> [] \<and> DiscoveryURL (drone_main env r) \<noteq> []"
  by (simp add: drone_main_def NewDrone_def Let_def)

section \<open>The sensor\<close>

record 'f sensor_process =
  engine :: "'f Engine"
  telemetryChan :: "Telemetry list"
  brokerList :: "string list"
  previousState :: string
  datagrams :: "(string \<times> bytes) list"

text \<open>The errors of the conversions are ignored, so what is not a number counts as 0.\<close>

definition sensor_main :: "environment \<Rightarrow> (string \<Rightarrow> 'f) \<Rightarrow> 'f sensor_process" where
  "sensor_main env parseFloat =
     (let totalSectors = atoi_val (getEnv env ''TOTAL_SECTORS'' ''25'');
          freqMs = atoi_val (getEnv env ''FREQ_MS'' ''500'');
          threatProb = parseFloat (getEnv env ''THREAT_PROB'' ''0.05'');
          critProb = parseFloat (getEnv env ''CRITICAL_PROB'' ''0.20'');
          nations = Split (getEnv env ''NATIONS'' ''BR,UK,FR,US'') CHR '',''
      in \<lparr>engine = \<lparr>TotalSectors = totalSectors, Frequency = wrap64 (freqMs * Millisecond), ThreatProbability = threatProb,
                     CriticalProbability = critProb, Nations = nations\<rparr>,
          telemetryChan = [], brokerList = [], previousState = [], datagrams = []\<rparr>)"

datatype 'f sensor_event = SensorTick "'f draws" | SensorDNS "string list option" | SensorSend "string \<Rightarrow> udp_result"

fun sensor_step :: "(bytes \<Rightarrow> bytes) \<Rightarrow> (Telemetry \<Rightarrow> bytes option) \<Rightarrow> ('f :: linorder) sensor_process \<Rightarrow> 'f sensor_event
    \<Rightarrow> ('f sensor_process, unit) outcome" where
  "sensor_step sha256 marshal s (SensorTick dr) = on_state (\<lambda>c. s\<lparr>telemetryChan := c\<rparr>) (fire sha256 (engine s) dr (telemetryChan s))"
| "sensor_step sha256 marshal s (SensorDNS ips) =
     (let (l, p) = watchBrokerDNS_tick ips (brokerList s, previousState s) in Returned (s\<lparr>brokerList := l, previousState := p\<rparr>) ())"
| "sensor_step sha256 marshal s (SensorSend fate) =
     (let (c, out) = ingress_turn marshal fate (brokerList s) (telemetryChan s)
      in Returned (s\<lparr>telemetryChan := c, datagrams := datagrams s @ out\<rparr>) ())"

fun sensor_steps :: "(bytes \<Rightarrow> bytes) \<Rightarrow> (Telemetry \<Rightarrow> bytes option) \<Rightarrow> ('f :: linorder) sensor_process \<Rightarrow> 'f sensor_event list
    \<Rightarrow> ('f sensor_process, unit) outcome" where
  "sensor_steps sha256 marshal s [] = Returned s ()"
| "sensor_steps sha256 marshal s (ev # evs) = bind_outcome (sensor_step sha256 marshal s ev) (\<lambda>s _. sensor_steps sha256 marshal s evs)"

text \<open>\<open>Engine.Start\<close> makes its ticker first, and \<open>time.NewTicker\<close> panics when the period is not positive.\<close>

definition Start :: "'f sensor_process \<Rightarrow> ('f sensor_process, unit) outcome" where
  "Start s = (if Frequency (engine s) \<le> 0 then Panicked s InvalidArgument else Returned s ())"

definition sensor_run :: "(bytes \<Rightarrow> bytes) \<Rightarrow> (Telemetry \<Rightarrow> bytes option) \<Rightarrow> ('f :: linorder) sensor_process \<Rightarrow> 'f sensor_event list
    \<Rightarrow> ('f sensor_process, unit) outcome" where
  "sensor_run sha256 marshal s evs = bind_outcome (Start s) (\<lambda>s _. sensor_steps sha256 marshal s evs)"

lemma fire_returns:
  "0 < TotalSectors e \<Longrightarrow> Nations e \<noteq> [] \<Longrightarrow> \<exists>out'. fire sha256 e dr out = Returned out' ()"
  by (auto simp: fire_def Intn_def Let_def)

lemma sensor_steps_return:
  "0 < TotalSectors (engine s) \<Longrightarrow> Nations (engine s) \<noteq> [] \<Longrightarrow> \<exists>s'. sensor_steps sha256 marshal s evs = Returned s' ()"
proof (induction evs arbitrary: s)
  case (Cons ev evs)
  have "\<exists>s'. sensor_step sha256 marshal s ev = Returned s' () \<and> engine s' = engine s"
  proof (cases ev)
    case (SensorTick dr)
    obtain c where "fire sha256 (engine s) dr (telemetryChan s) = Returned c ()" using fire_returns Cons.prems by blast
    then show ?thesis using SensorTick by simp
  qed (simp_all add: case_prod_beta)
  then obtain s' where "sensor_step sha256 marshal s ev = Returned s' ()" "engine s' = engine s" by blast
  then show ?case using Cons by simp
qed simp

text \<open>C33. The simulator stands or falls with its configuration: whatever happens, it runs without a panic exactly when
  \<open>TOTAL_SECTORS\<close> reads as a positive number and \<open>FREQ_MS\<close> as one whose milliseconds are positive in 64 bits. A
  value that is not a number reads as 0, so it makes the process die at its start or at its first shot.\<close>

theorem sensor_runs_iff_configured:
  "(\<forall>evs. returned (sensor_run sha256 marshal (sensor_main env parseFloat) evs)) \<longleftrightarrow>
     0 < atoi_val (getEnv env ''TOTAL_SECTORS'' ''25'') \<and> 0 < wrap64 (atoi_val (getEnv env ''FREQ_MS'' ''500'') * Millisecond)"
  (is "?runs \<longleftrightarrow> ?ok")
proof
  let ?s = "sensor_main env parseFloat"
  have e: "TotalSectors (engine ?s) = atoi_val (getEnv env ''TOTAL_SECTORS'' ''25'')"
    "Frequency (engine ?s) = wrap64 (atoi_val (getEnv env ''FREQ_MS'' ''500'') * Millisecond)" "Nations (engine ?s) \<noteq> []"
    by (simp_all add: sensor_main_def Let_def Split_not_Nil)
  {
    assume ?ok
    then have "\<exists>s'. sensor_run sha256 marshal ?s evs = Returned s' ()" for evs
      using sensor_steps_return [of ?s sha256 marshal evs] e by (simp add: sensor_run_def Start_def)
    then show ?runs by (metis returned.simps(1))
  next
    assume run: ?runs
    then have "returned (sensor_run sha256 marshal ?s [])" by blast
    then have f: "0 < Frequency (engine ?s)" by (auto simp: sensor_run_def Start_def split: if_splits)
    obtain dr where "returned (sensor_run sha256 marshal ?s [SensorTick dr])" using run by blast
    then have "0 < TotalSectors (engine ?s)"
      using f by (auto simp: sensor_run_def Start_def fire_def Intn_def Let_def split: if_splits)
    then show ?ok using f e by simp
  }
qed

end
