(* ===== verification/Ledger_Process.thy ===== *)
theory Ledger_Process
  imports Ledger_Limits
begin

text \<open>
  The validator process of \<open>src/cmd/ledger/main.go\<close> around the application: start-up, the ABCI requests the consensus
  engine sends over the socket, and restarts on the same database. The file system, the database and the
  socket are arguments of \<open>main\<close>. A life of the ledger is a list of requests and restarts; a request that panics
  gets no answer and leaves what it wrote. The properties are about what has been answered over the whole of it.
\<close>

section \<open>Start-up\<close>

text \<open>The fatal exits. The last one comes after the database is open and its balances are written.\<close>

datatype 'db ledger_start = NoDirectory | NoDatabase | NoSocket 'db | Serving 'db

definition ledger_main ::
    "'db leveldb \<Rightarrow> (string \<Rightarrow> bool) \<Rightarrow> (string \<Rightarrow> 'db option) \<Rightarrow> (string \<Rightarrow> bool) \<Rightarrow> string option \<Rightarrow> 'db ledger_start" where
  "ledger_main L mkdirAll openFile listen addrFlag =
     (let addr = (case addrFlag of None \<Rightarrow> ''tcp://0.0.0.0:26658'' | Some a \<Rightarrow> a);
          dbPath = ''/app/data/state.db''
      in if \<not> mkdirAll ''/app/data'' then NoDirectory
         else (case NewOrmuzLedgerApp L (openFile dbPath) of
                 None \<Rightarrow> NoDatabase
               | Some app \<Rightarrow> if \<not> listen addr then NoSocket app else Serving app))"

section \<open>Requests\<close>

text \<open>The consensus engine's socket server gives each kind of request to the method of the application with its name.\<close>

datatype abci_request = CheckTxRequest bytes | FinalizeBlockRequest "bytes list" | QueryRequest string | CommitRequest

datatype abci_response = CheckTxResponse TxResult | FinalizeBlockResponse "TxResult list" | QueryAnswer QueryResponse | CommitResponse

type_synonym state_encoder = "(string \<rightharpoonup> int) \<Rightarrow> (string \<rightharpoonup> string) \<Rightarrow> bytes"

fun serve ::
    "'sk ed25519 \<Rightarrow> 'db leveldb \<Rightarrow> (bytes \<Rightarrow> Transaction option) \<Rightarrow> state_encoder \<Rightarrow> 'db \<Rightarrow> abci_request
      \<Rightarrow> ('db, abci_response) outcome" where
  "serve E L unmarshal marshal_state db (CheckTxRequest tx) = Returned db (CheckTxResponse (CheckTx L unmarshal db tx))"
| "serve E L unmarshal marshal_state db (FinalizeBlockRequest txs) =
     bind_outcome (FinalizeBlock E L unmarshal db txs) (\<lambda>db rs. Returned db (FinalizeBlockResponse rs))"
| "serve E L unmarshal marshal_state db (QueryRequest path) = Returned db (QueryAnswer (Query L marshal_state db path))"
| "serve E L unmarshal marshal_state db CommitRequest = (let (db, _) = Commit db in Returned db CommitResponse)"

text \<open>
  A restart opens the database that is there and goes through \<open>NewOrmuzLedgerApp\<close> again. A request that panics gets no
  answer and leaves the database as it was at that moment; the life goes on from there.
\<close>

datatype ledger_event = Request abci_request | Restart

datatype ledger_reply = Answered abci_response | Crashed go_panic | Restarted

definition ledger_event_step ::
    "'sk ed25519 \<Rightarrow> 'db leveldb \<Rightarrow> (bytes \<Rightarrow> Transaction option) \<Rightarrow> state_encoder \<Rightarrow> 'db \<Rightarrow> ledger_event \<Rightarrow> 'db \<times> ledger_reply" where
  "ledger_event_step E L unmarshal marshal_state db ev =
     (case ev of
        Request req \<Rightarrow>
          (case serve E L unmarshal marshal_state db req of
             Returned db a \<Rightarrow> (db, Answered a)
           | Panicked db p \<Rightarrow> (db, Crashed p))
      | Restart \<Rightarrow> (the (NewOrmuzLedgerApp L (Some db)), Restarted))"

fun ledger_life ::
    "'sk ed25519 \<Rightarrow> 'db leveldb \<Rightarrow> (bytes \<Rightarrow> Transaction option) \<Rightarrow> state_encoder \<Rightarrow> 'db \<Rightarrow> ledger_event list
      \<Rightarrow> 'db \<times> ledger_reply list" where
  "ledger_life E L unmarshal marshal_state db [] = (db, [])"
| "ledger_life E L unmarshal marshal_state db (ev # evs) =
     (let (db, a) = ledger_event_step E L unmarshal marshal_state db ev;
          (db, as) = ledger_life E L unmarshal marshal_state db evs
      in (db, a # as))"

text \<open>The transactions the answered blocks have accepted, in their order, and the transactions of the blocks that panicked.\<close>

fun accepted_bytes :: "bytes list \<Rightarrow> TxResult list \<Rightarrow> bytes list" where
  "accepted_bytes (b # bs) (r # rs) = (if Code r = 0 then b # accepted_bytes bs rs else accepted_bytes bs rs)"
| "accepted_bytes _ _ = []"

fun life_accepted :: "ledger_event list \<Rightarrow> ledger_reply list \<Rightarrow> bytes list" where
  "life_accepted (Request (FinalizeBlockRequest txs) # evs) (Answered (FinalizeBlockResponse rs) # as) =
     accepted_bytes txs rs @ life_accepted evs as"
| "life_accepted (_ # evs) (_ # as) = life_accepted evs as"
| "life_accepted _ _ = []"

fun life_crashed :: "ledger_event list \<Rightarrow> ledger_reply list \<Rightarrow> bytes list" where
  "life_crashed (Request (FinalizeBlockRequest txs) # evs) (Crashed p # as) = txs @ life_crashed evs as"
| "life_crashed (_ # evs) (_ # as) = life_crashed evs as"
| "life_crashed _ _ = []"

text \<open>The debits among these bytes that carry the nation's valid signature.\<close>

definition signed_debits :: "'sk ed25519 \<Rightarrow> (bytes \<Rightarrow> Transaction option) \<Rightarrow> string \<Rightarrow> bytes list \<Rightarrow> nat" where
  "signed_debits E unmarshal n bs = length (filter (\<lambda>b. \<exists>tx. unmarshal b = Some tx \<and> signed_spend E n tx) bs)"

section \<open>Steps of a life\<close>

lemma accepted_txs_bytes:
  "accepted_txs U bs rs = List.map_filter U (accepted_bytes bs rs)"
  by (induction bs rs rule: accepted_bytes.induct)
    (auto simp: accepted_txs_def List.map_filter_simps split: option.splits)

lemma spends_append [simp]: "spends n (xs @ ys) = spends n xs + spends n ys"
  by (simp add: spends_def)

lemma map_filter_append [simp]: "List.map_filter f (xs @ ys) = List.map_filter f xs @ List.map_filter f ys"
  by (simp add: List.map_filter_def)

lemma signed_debits_simps [simp]:
  "signed_debits E U n [] = 0" "signed_debits E U n (xs @ ys) = signed_debits E U n xs + signed_debits E U n ys"
  "signed_debits E U n (b # bs) = (if \<exists>tx. U b = Some tx \<and> signed_spend E n tx then 1 else 0) + signed_debits E U n bs"
  by (simp_all add: signed_debits_def)

lemma authentic_signed: "authentic E tx \<Longrightarrow> is_spend tx \<Longrightarrow> signed_spend E (tx_NationID tx) tx"
  by (auto simp: authentic_iff signed_spend_def is_spend_def)

text \<open>A block that panics has run up to one transaction.\<close>

lemma crashed_block:
  "FinalizeBlock E L U db txs = Panicked db' p \<Longrightarrow>
     \<exists>bs b cs db1 rs. txs = bs @ b # cs \<and> FinalizeBlock E L U db bs = Returned db1 rs \<and> deliver_tx E L U db1 b = Panicked db' p"
proof (induction txs arbitrary: db)
  case (Cons b txs)
  show ?case
  proof (cases "deliver_tx E L U db b")
    case (Returned db1 r)
    then have "FinalizeBlock E L U db1 txs = Panicked db' p" using Cons.prems by (cases "FinalizeBlock E L U db1 txs") auto
    from Cons.IH [OF this] obtain bs c cs db2 rs where "txs = bs @ c # cs" "FinalizeBlock E L U db1 bs = Returned db2 rs"
      "deliver_tx E L U db2 c = Panicked db' p" by blast
    then show ?thesis using Returned by (intro exI [of _ "b # bs"] exI [of _ c] exI [of _ cs] exI [of _ db2] exI [of _ "r # rs"]) simp
  next
    case (Panicked db1 q)
    then show ?thesis using Cons.prems by (intro exI [of _ "[]"] exI [of _ b] exI [of _ txs] exI [of _ db] exI [of _ "[]"]) simp
  qed
qed simp

text \<open>What an event of the life is for the database: a block, a block that panicked, or nothing that shows in the abstract
  ledger once every consortium nation has its account.\<close>

definition open_accounts :: "ledger_state \<Rightarrow> bool" where
  "open_accounts st \<longleftrightarrow> (\<forall>n \<in> consortium. bal st n \<noteq> None)"

lemma start_up_writes:
  assumes "leveldb_ok L"
  shows "db_Get L (the (NewOrmuzLedgerApp L (Some db))) k =
    (if db_Get L db k = None \<and> k \<in> balance_key ` consortium then Some ''1000'' else db_Get L db k)"
  using put_if_missing [OF assms, of "''1000''" "[''BR'', ''UK'', ''FR'', ''US'']" db k]
  by (auto simp: NewOrmuzLedgerApp_def)

lemma restart_keeps:
  assumes "leveldb_ok L" "open_accounts (ledger_abs L db)"
  shows "db_Get L (the (NewOrmuzLedgerApp L (Some db))) = db_Get L db"
  using assms by (auto simp: start_up_writes open_accounts_def ledger_abs_def fun_eq_iff)

lemma event_cases:
  assumes "leveldb_ok L" "open_accounts (ledger_abs L db)" "ledger_event_step E L U M db ev = (db', a)"
  obtains (block) txs rs where "ev = Request (FinalizeBlockRequest txs)" "a = Answered (FinalizeBlockResponse rs)"
      "FinalizeBlock E L U db txs = Returned db' rs"
  | (crash) txs p where "ev = Request (FinalizeBlockRequest txs)" "a = Crashed p" "FinalizeBlock E L U db txs = Panicked db' p"
  | (quiet) "db_Get L db' = db_Get L db" "\<And>evs as. life_accepted (ev # evs) (a # as) = life_accepted evs as"
      "\<And>evs as. life_crashed (ev # evs) (a # as) = life_crashed evs as"
proof (cases ev)
  case Restart
  then show ?thesis using assms quiet restart_keeps [OF assms(1,2)] by (auto simp: ledger_event_step_def)
next
  case (Request req)
  show ?thesis
  proof (cases req)
    case (FinalizeBlockRequest txs)
    then show ?thesis
      using assms(3) block [of txs] crash [of txs] Request by (cases "FinalizeBlock E L U db txs") (auto simp: ledger_event_step_def)
  qed (use assms(3) quiet Request in \<open>auto simp: ledger_event_step_def Commit_def\<close>)
qed

lemma ledger_abs_cong: "db_Get L db' = db_Get L db \<Longrightarrow> ledger_abs L db' = ledger_abs L db"
  by (simp add: ledger_abs_def)

lemma block_keeps_accounts:
  assumes "leveldb_ok L" "FinalizeBlock E L U db txs = Returned db' rs" "open_accounts (ledger_abs L db)"
  shows "open_accounts (ledger_abs L db')"
  using assms by (induction rule: FinalizeBlock_induct) (auto simp: open_accounts_def spec_apply_def)

lemma crash_keeps_accounts:
  assumes "leveldb_ok L" "FinalizeBlock E L U db txs = Panicked db' p" "open_accounts (ledger_abs L db)"
  shows "open_accounts (ledger_abs L db')"
proof -
  obtain bs b cs db1 rs where c: "FinalizeBlock E L U db bs = Returned db1 rs" "deliver_tx E L U db1 b = Panicked db' p"
    using crashed_block [OF assms(2)] by blast
  have "open_accounts (ledger_abs L db1)" by (rule block_keeps_accounts [OF assms(1) c(1) assms(3)])
  then show ?thesis using assms(1) c(2) by (cases rule: deliver_panicked [OF assms(1) c(2)]) (auto simp: open_accounts_def spec_apply_def)
qed

text \<open>An induction over a life: blocks, blocks that panic, and events that leave the database as it is.\<close>

lemma life_induct [consumes 3, case_names finished block crash quiet]:
  assumes L: "leveldb_ok L" and acc: "open_accounts (ledger_abs L db)"
    and run: "ledger_life E L U M db evs = (db', as)"
    and "\<And>db. P db [] [] db"
    and "\<And>db txs db1 rs bs cs db'. FinalizeBlock E L U db txs = Returned db1 rs \<Longrightarrow> P db1 bs cs db' \<Longrightarrow>
      P db (accepted_bytes txs rs @ bs) cs db'"
    and "\<And>db txs db1 p bs cs db'. FinalizeBlock E L U db txs = Panicked db1 p \<Longrightarrow> P db1 bs cs db' \<Longrightarrow> P db bs (txs @ cs) db'"
    and "\<And>db db1 bs cs db'. db_Get L db1 = db_Get L db \<Longrightarrow> P db1 bs cs db' \<Longrightarrow> P db bs cs db'"
  shows "P db (life_accepted evs as) (life_crashed evs as) db'"
  using acc run
proof (induction evs arbitrary: db as)
  case Nil
  then show ?case using assms(4) by simp
next
  case (Cons ev evs)
  obtain db1 a as' where s: "ledger_event_step E L U M db ev = (db1, a)"
    and r: "ledger_life E L U M db1 evs = (db', as')" and as: "as = a # as'"
    using Cons.prems(2) by (auto split: prod.splits)
  from L Cons.prems(1) s show ?case
  proof (cases rule: event_cases)
    case (block txs rs)
    have "open_accounts (ledger_abs L db1)" by (rule block_keeps_accounts [OF L block(3) Cons.prems(1)])
    then show ?thesis using Cons.IH [OF _ r] block as assms(5) by simp
  next
    case (crash txs p)
    have "open_accounts (ledger_abs L db1)" by (rule crash_keeps_accounts [OF L crash(3) Cons.prems(1)])
    then show ?thesis using Cons.IH [OF _ r] crash as assms(6) by simp
  next
    case quiet
    have "open_accounts (ledger_abs L db1)" using Cons.prems(1) ledger_abs_cong [OF quiet(1)] by simp
    then show ?thesis using Cons.IH [OF _ r] quiet as assms(7) by metis
  qed
qed

section \<open>Credits over a life\<close>

lemma start_up_state:
  assumes "leveldb_ok L" "ledger_main L mkdirAll openFile listen addrFlag = Serving db"
  obtains db0 where "openFile ''/app/data/state.db'' = Some db0" "db = the (NewOrmuzLedgerApp L (Some db0))"
    "open_accounts (ledger_abs L db)"
proof -
  obtain db0 where db0: "openFile ''/app/data/state.db'' = Some db0" "NewOrmuzLedgerApp L (Some db0) = Some db"
    using assms(2) by (auto simp: ledger_main_def NewOrmuzLedgerApp_def Let_def split: if_splits option.splits)
  then have "open_accounts (ledger_abs L db)"
    using start_up_writes [OF assms(1), of db0] by (auto simp: open_accounts_def ledger_abs_def)
  with db0 that show thesis by simp
qed

lemma accepted_signed:
  assumes "leveldb_ok L" "FinalizeBlock E L U db bs = Returned db' rs"
  shows "spends n (accepted_txs U bs rs) \<le> signed_debits E U n bs"
  using assms
proof (induction rule: FinalizeBlock_induct)
  case (applied db b bs db1 db' tx r rs)
  then show ?case using authentic_signed [of E tx] by (auto simp: accepted_txs_Cons spends_Cons)
qed (auto simp: accepted_txs_Cons accepted_txs_def List.map_filter_simps spends_def)

text \<open>A block that panics takes at most one credit for each of its signed debits.\<close>

lemma crash_credits:
  assumes "leveldb_ok L" "FinalizeBlock E L U db txs = Panicked db' p" "bal (ledger_abs L db) n = Some c"
    and "- (2 ^ 63) \<le> c - int (signed_debits E U n txs)"
  shows "\<exists>k \<le> signed_debits E U n txs. bal (ledger_abs L db') n = Some (c - int k)"
proof -
  obtain bs b cs db1 rs where t: "txs = bs @ b # cs" "FinalizeBlock E L U db bs = Returned db1 rs" "deliver_tx E L U db1 b = Panicked db' p"
    using crashed_block [OF assms(2)] by blast
  let ?k = "spends n (accepted_txs U bs rs)"
  have k: "?k \<le> signed_debits E U n bs" by (rule accepted_signed [OF assms(1) t(2)])
  then have b1: "bal (ledger_abs L db1) n = Some (c - int ?k)"
    using credit_accounting [OF assms(1) t(2) assms(3)] assms(4) t(1) by simp
  from assms(1) t(3) show ?thesis
  proof (cases rule: deliver_panicked)
    case before
    then show ?thesis using b1 k t(1) by (intro exI [of _ ?k]) simp
  next
    case (debited tx)
    show ?thesis
    proof (cases "tx_NationID tx = n")
      case True
      then have d: "Suc ?k \<le> signed_debits E U n txs" using k t(1) debited authentic_signed [of E tx] by auto
      then have "int64 (c - int ?k - 1)" using bal_int64 [OF b1] assms(4) by (simp add: int64_def)
      then have "bal (ledger_abs L db') n = Some (c - int (Suc ?k))" using debited True b1 by (simp add: spec_apply_def algebra_simps)
      then show ?thesis using d by blast
    next
      case False
      then have "bal (ledger_abs L db') n = Some (c - int ?k)" using debited b1 by (simp add: spec_apply_def)
      then show ?thesis using k t(1) by (intro exI [of _ ?k]) simp
    qed
  qed
qed

lemma life_credits:
  assumes "leveldb_ok L" "open_accounts (ledger_abs L db)" "ledger_life E L U M db evs = (db', as)"
    and "bal (ledger_abs L db) n = Some c"
    and "- (2 ^ 63) \<le> c - int (spends n (List.map_filter U (life_accepted evs as))) - int (signed_debits E U n (life_crashed evs as))"
  shows "\<exists>k \<le> signed_debits E U n (life_crashed evs as).
    bal (ledger_abs L db') n = Some (c - int (spends n (List.map_filter U (life_accepted evs as))) - int k)"
  using assms
proof (induction arbitrary: c rule: life_induct)
  case (finished db)
  then show ?case by (simp add: spends_def List.map_filter_simps)
next
  case (block db txs db1 rs bs cs db')
  have "bal (ledger_abs L db1) n = Some (c - int (spends n (List.map_filter U (accepted_bytes txs rs))))"
    using credit_accounting [OF assms(1) block(1) block.prems(1)] block.prems(2) by (simp add: accepted_txs_bytes)
  from block.IH [OF this] show ?case using block.prems(2) by (simp add: algebra_simps)
next
  case (crash db txs db1 p bs cs db')
  obtain k where k: "k \<le> signed_debits E U n txs" "bal (ledger_abs L db1) n = Some (c - int k)"
    using crash_credits [OF assms(1) crash(1) crash.prems(1)] crash.prems(2) by auto
  from crash.IH [OF k(2)] crash.prems(2) k(1) obtain l where "l \<le> signed_debits E U n cs"
    "bal (ledger_abs L db') n = Some (c - int k - int (spends n (List.map_filter U bs)) - int l)" by auto
  then show ?case using k(1) by (intro exI [of _ "k + l"]) (simp add: algebra_simps)
next
  case (quiet db db1 bs cs db')
  show ?case using quiet.IH quiet.prems ledger_abs_cong [OF quiet(1)] by simp
qed

lemma Query_balance:
  assumes "CHR ''/'' \<notin> set n" "bal (ledger_abs L db) n = Some c"
  shows "q_Code (Query L M db (''balance/'' @ n)) = 0 \<and> atoi_val (q_Value (Query L M db (''balance/'' @ n))) = c"
proof -
  have "Split (''balance/'' @ n) CHR ''/'' = [''balance'', n]"
    using Split_append [of "CHR ''/''" "''balance''" n] assms(1) by (simp add: Split_no_sep)
  then show ?thesis using assms(2) by (auto simp: Query_def Let_def ledger_abs_def)
qed

text \<open>C5. The books balance over the whole life of the ledger: start it on a database without accounts, send it any
  requests, let it panic and restart as it may. What the balance query then answers for a consortium nation is 1000
  minus the number of its \<open>SPEND_CREDIT\<close> transactions that blocks answered with code 0, minus what the blocks that
  panicked have taken, which is at most one credit for each of their debits that carry the nation's valid
  signature (while these numbers fit in 64 bits). So when no block panics the balance is exact, and no other request, and
  no restart, moves a credit.\<close>

theorem ledger_lifetime:
  assumes "leveldb_ok L" "openFile ''/app/data/state.db'' = Some db0" "\<forall>n \<in> consortium. db_Get L db0 (balance_key n) = None"
    and "ledger_main L mkdirAll openFile listen addrFlag = Serving db"
    and "ledger_life E L unmarshal marshal_state db evs = (db', replies)"
    and "nation \<in> consortium" "paid = spends nation (List.map_filter unmarshal (life_accepted evs replies))"
    and "paid + signed_debits E unmarshal nation (life_crashed evs replies) \<le> 2 ^ 63"
  shows "\<exists>lost \<le> signed_debits E unmarshal nation (life_crashed evs replies).
    q_Code (Query L marshal_state db' (''balance/'' @ nation)) = 0 \<and>
    atoi_val (q_Value (Query L marshal_state db' (''balance/'' @ nation))) = 1000 - int paid - int lost"
proof -
  have n: "CHR ''/'' \<notin> set nation" using assms(6) by auto
  have db: "db = the (NewOrmuzLedgerApp L (Some db0))" and acc: "open_accounts (ledger_abs L db)"
    using start_up_state [OF assms(1,4)] assms(2) by auto
  have b: "bal (ledger_abs L db) nation = Some 1000"
    using assms(3,6) unfolding db ledger_abs_def by (auto simp: start_up_writes [OF assms(1)] example_numbers)
  have "- (2 ^ 63) \<le> 1000 - int paid - int (signed_debits E unmarshal nation (life_crashed evs replies))"
    using assms(8) by simp
  from life_credits [OF assms(1) acc assms(5) b this [unfolded assms(7)]] obtain lost
    where l: "lost \<le> signed_debits E unmarshal nation (life_crashed evs replies)"
      "bal (ledger_abs L db') nation = Some (1000 - int paid - int lost)" unfolding assms(7) by blast
  show ?thesis by (intro exI [of _ lost] conjI l(1)) (use Query_balance [OF n l(2)] in simp_all)
qed

section \<open>The archive over a life\<close>

lemma block_archives:
  assumes "leveldb_ok L" "FinalizeBlock E L U db txs = Returned db' rs" "reports_locked (ledger_abs L db)"
  shows "\<forall>b \<in> set (accepted_bytes txs rs). \<exists>tx. U b = Some tx \<and> reps (ledger_abs L db') (op_key tx) = Some b"
  using assms
proof (induction rule: FinalizeBlock_induct)
  case (applied db b bs db1 db' tx r rs)
  have l: "reports_locked (ledger_abs L db1)" using applied by (auto simp: reports_locked_def spec_apply_def)
  have "reps (ledger_abs L db1) (op_key tx) = Some b" using applied by (simp add: spec_apply_def)
  then have "reps (ledger_abs L db') (op_key tx) = Some b" using reports_immutable [OF assms(1) applied(7) l] by blast
  then show ?case using applied l by auto
qed auto

lemma crash_archives:
  assumes "leveldb_ok L" "FinalizeBlock E L U db txs = Panicked db' p" "reports_locked (ledger_abs L db)"
  shows "reports_locked (ledger_abs L db') \<and> (\<forall>k v. reps (ledger_abs L db) k = Some v \<longrightarrow> reps (ledger_abs L db') k = Some v)"
proof -
  obtain bs b cs db1 rs where c: "FinalizeBlock E L U db bs = Returned db1 rs" "deliver_tx E L U db1 b = Panicked db' p"
    using crashed_block [OF assms(2)] by blast
  note r = reports_immutable [OF assms(1) c(1) assms(3)]
  from assms(1) c(2) show ?thesis by (cases rule: deliver_panicked) (use r in \<open>auto simp: reports_locked_def\<close>)
qed

lemma life_archives:
  assumes "leveldb_ok L" "open_accounts (ledger_abs L db)" "ledger_life E L U M db evs = (db', as)"
    and "reports_locked (ledger_abs L db)"
  shows "(\<forall>b \<in> set (life_accepted evs as). \<exists>tx. U b = Some tx \<and> reps (ledger_abs L db') (op_key tx) = Some b) \<and>
    (\<forall>k v. reps (ledger_abs L db) k = Some v \<longrightarrow> reps (ledger_abs L db') k = Some v)"
  using assms
proof (induction rule: life_induct)
  case (block db txs db1 rs bs cs db')
  note keep = reports_immutable [OF assms(1) block(1) block.prems]
  then show ?case using block_archives [OF assms(1) block(1) block.prems] block.IH by fastforce
next
  case (crash db txs db1 p bs cs db')
  then show ?case using crash_archives [OF assms(1) crash(1) crash.prems] by blast
next
  case (quiet db db1 bs cs db')
  then show ?case using ledger_abs_cong [OF quiet(1)] by simp
qed simp

text \<open>C11. The archive is complete and immutable: in any life of the ledger, panics and restarts included, from a database
  whose reports are all locked, every transaction a block accepted is at the end on file under its type and event,
  byte for byte as it came in, and every report that was on file at the start is still there unchanged.\<close>

theorem accepted_stays_on_file:
  assumes "leveldb_ok L" "ledger_main L mkdirAll openFile listen addrFlag = Serving db"
    and "reports_locked (ledger_abs L db)" "ledger_life E L unmarshal marshal_state db evs = (db', replies)"
  shows "(\<forall>b \<in> set (life_accepted evs replies).
      \<exists>tx. unmarshal b = Some tx \<and> db_Get L db' (report_key (tx_Type tx) (tx_EventID tx)) = Some b) \<and>
    (\<forall>k v. db_Get L db (''report:'' @ k) = Some v \<longrightarrow> db_Get L db' (''report:'' @ k) = Some v)"
proof -
  have "open_accounts (ledger_abs L db)" using start_up_state [OF assms(1,2)] by blast
  from life_archives [OF assms(1) this assms(4,3)] show ?thesis
    by (simp add: ledger_abs_def report_key_def op_key_def)
qed

section \<open>An example life\<close>

text \<open>The last block panics after its debit: the name of its event is too short for the log.\<close>

definition example_life :: "ledger_event list" where
  "example_life =
     [Request (CheckTxRequest ''tx1''), Request (FinalizeBlockRequest [''tx1'', ''tx3'']), Request CommitRequest, Restart,
      Request (FinalizeBlockRequest [''tx1'', ''tx2'']), Request (QueryRequest ''balance/BR''), Request (FinalizeBlockRequest [''short''])]"

abbreviation example_start :: "(bytes \<times> bytes) list ledger_start" where
  "example_start \<equiv> ledger_main example_leveldb (\<lambda>_. True) (\<lambda>_. Some []) (\<lambda>_. True) None"

abbreviation example_lives :: "(bytes \<times> bytes) list \<Rightarrow> (bytes \<times> bytes) list \<times> ledger_reply list" where
  "example_lives db \<equiv> ledger_life example_ed25519 example_leveldb example_unmarshal (\<lambda>_ _. []) db example_life"

abbreviation example_opened :: "(bytes \<times> bytes) list" where
  "example_opened \<equiv> [(balance_key ''US'', ''1000''), (balance_key ''FR'', ''1000''), (balance_key ''UK'', ''1000''), (balance_key ''BR'', ''1000'')]"

lemma example_starts: "example_start = Serving example_opened" "reports_locked (ledger_abs example_leveldb example_opened)"
  by (simp_all add: ledger_main_def NewOrmuzLedgerApp_def example_leveldb_def key_defs reports_locked_def ledger_abs_def)

lemma example_first_block:
  obtains db where "example_block example_opened [''tx1'', ''tx3''] = Returned db [result 0 [], result 0 []]"
    "\<forall>n \<in> consortium. db_Has example_leveldb db (balance_key n)"
    "map_of db (balance_key ''BR'') = Some ''999''" "map_of db (processed_key ''SPEND_CREDIT'' ''event-0001'') = Some ''true''"
    "map_of db (processed_key ''SPEND_CREDIT'' ''event-0002'') = None"
    "map_of db (processed_key ''SPEND_CREDIT'' ''e1'') = None"
  by (simp add: example_eval)

lemma example_second_block:
  assumes "map_of db (balance_key ''BR'') = Some ''999''" "map_of db (processed_key ''SPEND_CREDIT'' ''event-0001'') = Some ''true''"
    "map_of db (processed_key ''SPEND_CREDIT'' ''event-0002'') = None" "map_of db (processed_key ''SPEND_CREDIT'' ''e1'') = None"
  obtains db' r where "example_block db [''tx1'', ''tx2''] = Returned db' [r, result 0 []]" "Code r = 5"
    "map_of db' (processed_key ''SPEND_CREDIT'' ''e1'') = None"
  using assms by (simp add: example_unmarshal_def example_leveldb_def deliver_tx_def state_machine_def
    example_tx_authentic Let_def loggable_def key_defs)

lemma example_last_block:
  assumes "map_of db (processed_key ''SPEND_CREDIT'' ''e1'') = None"
  obtains db' where "example_block db [''short''] = Panicked db' SliceOutOfRange"
  using assms by (simp add: example_unmarshal_def example_leveldb_def deliver_tx_def state_machine_def example_tx_authentic
    Let_def loggable_def)

lemma example_lives_on:
  obtains db as where "example_lives example_opened = (db, as)" "life_accepted example_life as = [''tx1'', ''tx3'', ''tx2'']"
    "life_crashed example_life as = [''short'']"
proof -
  obtain db1 where 1: "example_block example_opened [''tx1'', ''tx3''] = Returned db1 [result 0 [], result 0 []]"
    "\<forall>n \<in> consortium. db_Has example_leveldb db1 (balance_key n)" "map_of db1 (balance_key ''BR'') = Some ''999''"
    "map_of db1 (processed_key ''SPEND_CREDIT'' ''event-0001'') = Some ''true''"
    "map_of db1 (processed_key ''SPEND_CREDIT'' ''event-0002'') = None" "map_of db1 (processed_key ''SPEND_CREDIT'' ''e1'') = None"
    by (rule example_first_block)
  have r: "NewOrmuzLedgerApp example_leveldb (Some db1) = Some db1" using 1(2) by (simp add: NewOrmuzLedgerApp_def)
  obtain db2 r where 2: "example_block db1 [''tx1'', ''tx2''] = Returned db2 [r, result 0 []]" "Code r = 5"
    "map_of db2 (processed_key ''SPEND_CREDIT'' ''e1'') = None" by (rule example_second_block [OF 1(3-6)])
  obtain db3 where 3: "example_block db2 [''short''] = Panicked db3 SliceOutOfRange" by (rule example_last_block [OF 2(3)])
  show thesis using that 1(1) r 2(1,2) 3
    by (simp add: example_life_def ledger_event_step_def Commit_def del: FinalizeBlock.simps)
qed

theorem ledger_lifetime_witness:
  "\<exists>db db' replies. example_start = Serving db \<and> example_lives db = (db', replies) \<and>
     (\<exists>lost \<le> signed_debits example_ed25519 example_unmarshal ''BR'' (life_crashed example_life replies).
        atoi_val (q_Value (Query example_leveldb (\<lambda>_ _. []) db' ''balance/BR'')) = 998 - int lost)"
proof -
  obtain db' as where l: "example_lives example_opened = (db', as)" "life_accepted example_life as = [''tx1'', ''tx3'', ''tx2'']"
    "life_crashed example_life as = [''short'']" by (rule example_lives_on)
  have p: "2 = spends ''BR'' (List.map_filter example_unmarshal (life_accepted example_life as))"
    by (simp add: l(2) List.map_filter_simps example_unmarshal_def spends_def is_spend_def)
  have s: "2 + signed_debits example_ed25519 example_unmarshal ''BR'' (life_crashed example_life as) \<le> 2 ^ 63" by (simp add: l(3))
  have n: "\<forall>n \<in> consortium. db_Get example_leveldb [] (balance_key n) = None" by (simp add: example_leveldb_def)
  from ledger_lifetime [OF example_leveldb_ok refl n example_starts(1) l(1) _ p s] example_starts(1) l(1) show ?thesis by auto
qed

theorem accepted_stays_on_file_witness:
  "\<exists>db db' replies. example_start = Serving db \<and> example_lives db = (db', replies) \<and>
     (\<exists>tx. example_unmarshal ''tx3'' = Some tx \<and>
        db_Get example_leveldb db' (report_key (tx_Type tx) (tx_EventID tx)) = Some ''tx3'')"
proof -
  obtain db' as where l: "example_lives example_opened = (db', as)" "life_accepted example_life as = [''tx1'', ''tx3'', ''tx2'']"
    by (rule example_lives_on)
  from accepted_stays_on_file [OF example_leveldb_ok example_starts l(1)] show ?thesis using example_starts(1) l by auto
qed

end
