(* ===== verification/Go_Float.thy ===== *)
theory Go_Float
  imports Complex_Main "HOL-Library.Log_Nat"
begin

text \<open>
  Go's \<open>float64\<close>, for finite values: a value is a rational number, and an operation gives the exact result
  rounded to the nearest binary64 number, ties to even, with 53 significant bits above \<open>2 ^ -1074\<close>. Overflow is
  left out; the sources do not come near it. The lemmas are the ones proofs about such code rest on:
  rounding is monotone, keeps whole numbers up to \<open>2 ^ 53\<close>, and has a relative error of at most \<open>2 ^ -53\<close>.
\<close>

section \<open>Rounding\<close>

text \<open>To the nearest integer, a tie to the even one.\<close>

definition nearest_even :: "rat \<Rightarrow> int" where
  "nearest_even q =
     (let f = \<lfloor>q\<rfloor>; d = q - of_int f
      in if d < 1 / 2 then f else if 1 / 2 < d then f + 1 else if even f then f else f + 1)"

text \<open>The exponent of the leading bit of a positive number.\<close>

definition binade :: "rat \<Rightarrow> int" where
  "binade q =
     (if 1 \<le> q then int (floorlog 2 (nat \<lfloor>q\<rfloor>)) - 1
      else - int (floorlog 2 (nat (\<lceil>1 / q\<rceil> - 1))))"

definition exponent :: "rat \<Rightarrow> int" where
  "exponent q = max (- 1074) (binade q - 52)"

definition round_pos :: "rat \<Rightarrow> rat" where
  "round_pos q = of_int (nearest_even (q / 2 powi exponent q)) * 2 powi exponent q"

definition round64 :: "rat \<Rightarrow> rat" where
  "round64 q = (if q = 0 then 0 else if 0 < q then round_pos q else - round_pos (- q))"

lemma nearest_even_of_int [simp]: "nearest_even (of_int n) = n"
  by (simp add: nearest_even_def)

lemma nearest_even_error: "\<bar>of_int (nearest_even q) - q\<bar> \<le> 1 / 2"
  using floor_correct [of q] by (auto simp: nearest_even_def Let_def abs_le_iff)

lemma nearest_even_mono: "q \<le> r \<Longrightarrow> nearest_even q \<le> nearest_even r"
proof (cases "\<lfloor>q\<rfloor> = \<lfloor>r\<rfloor>")
  case True
  moreover assume "q \<le> r"
  ultimately show ?thesis by (auto simp: nearest_even_def Let_def)
next
  case False
  moreover assume "q \<le> r"
  ultimately have "\<lfloor>q\<rfloor> + 1 \<le> \<lfloor>r\<rfloor>" using floor_mono [of q r] by linarith
  moreover have "nearest_even q \<le> \<lfloor>q\<rfloor> + 1" "\<lfloor>r\<rfloor> \<le> nearest_even r" by (auto simp: nearest_even_def Let_def)
  ultimately show ?thesis by linarith
qed

lemma powi_less: "(i :: int) < j \<Longrightarrow> (2 :: rat) powi i < 2 powi j"
  by (simp add: power_int_strict_increasing)

lemma powi_le: "(i :: int) \<le> j \<Longrightarrow> (2 :: rat) powi i \<le> 2 powi j"
  by (simp add: power_int_increasing)

lemma powi_pos [simp]: "0 < (2 :: rat) powi i"
  by (simp add: zero_less_power_int)

lemma of_nat_powers:
  "2 ^ k \<le> n \<Longrightarrow> (2 :: rat) ^ k \<le> of_nat n" "n < 2 ^ k \<Longrightarrow> of_nat n + 1 \<le> (2 :: rat) ^ k"
  using of_nat_mono [of "2 ^ k" n, where ?'a = rat] of_nat_mono [of "Suc n" "2 ^ k", where ?'a = rat] by simp_all

lemma inverse_bounds:
  fixes q b :: rat
  assumes "0 < q" "0 < b"
  shows "1 / q \<le> b \<Longrightarrow> inverse b \<le> q" "b < 1 / q \<Longrightarrow> q < inverse b"
  using assms by (simp_all add: field_simps)

lemma binade_large:
  assumes "1 \<le> q"
  shows "2 powi binade q \<le> q \<and> q < 2 powi (binade q + 1)"
proof -
  let ?n = "nat \<lfloor>q\<rfloor>"
  have n: "0 < ?n" using assms by simp
  have b: "2 ^ (floorlog 2 ?n - 1) \<le> ?n" "?n < 2 ^ floorlog 2 ?n" using floorlog_bounds [of ?n 2] n by simp_all
  have f: "0 < floorlog 2 ?n" using b(2) n by (cases "floorlog 2 ?n") simp_all
  have e: "binade q = int (floorlog 2 ?n - 1)" "binade q + 1 = int (floorlog 2 ?n)" using assms f by (simp_all add: binade_def of_nat_diff)
  have "of_nat ?n \<le> q" "q < of_nat ?n + 1" using assms floor_correct [of q] by simp_all
  moreover have "(2 :: rat) ^ (floorlog 2 ?n - 1) \<le> of_nat ?n" using b(1) by (rule of_nat_powers)
  moreover have "of_nat ?n + 1 \<le> (2 :: rat) ^ floorlog 2 ?n"
    using b(2) by (rule of_nat_powers)
  ultimately have "2 powi int (floorlog 2 ?n - 1) \<le> q" "q < 2 powi int (floorlog 2 ?n)" unfolding power_int_of_nat by linarith+
  then show ?thesis using e by simp
qed

lemma binade_small:
  assumes "0 < q" "q < 1"
  shows "2 powi binade q \<le> q \<and> q < 2 powi (binade q + 1)"
proof -
  let ?p = "1 / q" let ?n = "nat (\<lceil>1 / q\<rceil> - 1)"
  have p: "1 < ?p" using assms by simp
  then have c: "2 \<le> \<lceil>?p\<rceil>" by linarith
  then have n: "0 < ?n" by simp
  have b: "2 ^ (floorlog 2 ?n - 1) \<le> ?n" "?n < 2 ^ floorlog 2 ?n" using floorlog_bounds [of ?n 2] n by simp_all
  have f: "0 < floorlog 2 ?n" using b(2) n by (cases "floorlog 2 ?n") simp_all
  have e: "binade q = - int (floorlog 2 ?n)" "binade q + 1 = - int (floorlog 2 ?n - 1)" using assms f by (simp_all add: binade_def of_nat_diff)
  have "of_nat ?n = (of_int (\<lceil>?p\<rceil> - 1) :: rat)" using c by (intro of_nat_nat) linarith
  then have m: "of_nat ?n < ?p" "?p \<le> of_nat ?n + 1" using ceiling_correct [of ?p] unfolding of_int_diff of_int_1 by linarith+
  have "(2 :: rat) ^ (floorlog 2 ?n - 1) < ?p" using of_nat_powers(1) [OF b(1)] m(1) by (rule order_le_less_trans)
  then have "q < inverse (2 ^ (floorlog 2 ?n - 1))" by (rule inverse_bounds(2) [OF assms(1) zero_less_power [OF zero_less_numeral]])
  moreover have "?p \<le> 2 ^ floorlog 2 ?n" using m(2) of_nat_powers(2) [OF b(2)] by (rule order_trans)
  then have "inverse (2 ^ floorlog 2 ?n) \<le> q" by (rule inverse_bounds(1) [OF assms(1) zero_less_power [OF zero_less_numeral]])
  moreover have "2 powi binade q = inverse ((2 :: rat) ^ floorlog 2 ?n)" "2 powi (binade q + 1) = inverse ((2 :: rat) ^ (floorlog 2 ?n - 1))"
    by (simp only: e(1) power_int_minus power_int_of_nat, simp only: e(2) power_int_minus power_int_of_nat)
  ultimately show ?thesis by (simp only:)
qed

lemma binade_bounds: "0 < q \<Longrightarrow> 2 powi binade q \<le> q" "0 < q \<Longrightarrow> q < 2 powi (binade q + 1)"
  using binade_large binade_small by (cases "1 \<le> q"; force)+

lemma binade_mono: "0 < q \<Longrightarrow> q \<le> r \<Longrightarrow> binade q \<le> binade r"
proof (rule ccontr)
  assume a: "0 < q" "q \<le> r" "\<not> binade q \<le> binade r"
  then have "r < 2 powi (binade r + 1)" "(2 :: rat) powi (binade r + 1) \<le> 2 powi binade q" "2 powi binade q \<le> q"
    using binade_bounds [of r] binade_bounds [of q] powi_le by force+
  then show False using a(2) by linarith
qed

section \<open>What rounding keeps\<close>

lemma powi_add: "(2 :: rat) powi (i + j) = 2 powi i * 2 powi j"
  by (simp add: power_int_add)

lemma round_pos_eq:
  assumes "q / 2 powi exponent q = of_int k"
  shows "round_pos q = q"
proof -
  have "of_int k * 2 powi exponent q = q" using assms by (simp add: field_simps)
  then show ?thesis using assms by (simp add: round_pos_def)
qed

lemma round_pos_nonneg: "0 < q \<Longrightarrow> 0 \<le> round_pos q"
  using nearest_even_mono [of 0 "q / 2 powi exponent q"] nearest_even_of_int [of 0] by (simp add: round_pos_def)

lemma round_pos_upper:
  assumes "0 < q"
  shows "round_pos q \<le> 2 powi (exponent q + 53)"
proof -
  have "q < 2 powi (binade q + 1)" using binade_bounds(2) [OF assms] .
  also have "\<dots> \<le> 2 powi (exponent q + 53)" by (rule powi_le) (simp add: exponent_def)
  also have "\<dots> = of_int (2 ^ 53) * 2 powi exponent q" unfolding powi_add by (simp add: power_int_def)
  finally have "q / 2 powi exponent q \<le> of_int (2 ^ 53)" by (simp add: field_simps)
  then have "nearest_even (q / 2 powi exponent q) \<le> 2 ^ 53" using nearest_even_mono nearest_even_of_int by metis
  then have "round_pos q \<le> of_int (2 ^ 53) * 2 powi exponent q"
    unfolding round_pos_def by (intro mult_right_mono) (simp_all only: of_int_le_iff powi_pos less_imp_le)
  also have "\<dots> = 2 powi (exponent q + 53)" unfolding powi_add by (simp add: power_int_def)
  finally show ?thesis .
qed

lemma round_pos_lower:
  assumes "0 < q" "exponent q = binade q - 52"
  shows "2 powi (exponent q + 52) \<le> round_pos q"
proof -
  have e: "2 powi (exponent q + 52) = of_int (2 ^ 52) * (2 :: rat) powi exponent q" unfolding powi_add by (simp add: power_int_def)
  have "of_int (2 ^ 52) * 2 powi exponent q \<le> q" using binade_bounds(1) [OF assms(1)] assms(2) unfolding e [symmetric] by simp
  then have "of_int (2 ^ 52) \<le> q / 2 powi exponent q" by (simp add: field_simps)
  then have "2 ^ 52 \<le> nearest_even (q / 2 powi exponent q)" using nearest_even_mono nearest_even_of_int by metis
  then show ?thesis unfolding e round_pos_def by (intro mult_right_mono) (simp_all only: of_int_le_iff powi_pos less_imp_le)
qed

lemma round_pos_mono:
  assumes "0 < q" "q \<le> r"
  shows "round_pos q \<le> round_pos r"
proof (cases "exponent q = exponent r")
  case True
  have "q / 2 powi exponent r \<le> r / 2 powi exponent r" using assms(2) by (simp add: divide_right_mono)
  then show ?thesis using True nearest_even_mono unfolding round_pos_def by (simp add: mult_right_mono)
next
  case False
  have r: "0 < r" using assms by simp
  have "exponent q \<le> exponent r" using binade_mono [OF assms] by (simp add: exponent_def)
  then have l: "exponent q < exponent r" using False by simp
  then have "exponent r = binade r - 52" by (auto simp: exponent_def)
  from round_pos_lower [OF r this] round_pos_upper [OF assms(1)] show ?thesis
    using powi_le [of "exponent q + 53" "exponent r + 52"] l by simp
qed

lemma round64_0 [simp]: "round64 0 = 0"
  by (simp add: round64_def)

lemma round64_neg: "round64 (- q) = - round64 q"
  by (simp add: round64_def)

lemma round64_mono: "q \<le> r \<Longrightarrow> round64 q \<le> round64 r"
proof -
  assume le: "q \<le> r"
  consider "0 < q" | "q \<le> 0" "0 \<le> r" | "r < 0" by linarith
  then show ?thesis
  proof cases
    case 1
    then show ?thesis using le round_pos_mono by (simp add: round64_def)
  next
    case 2
    then have "round64 q \<le> 0" "0 \<le> round64 r"
      using round_pos_nonneg [of "- q"] round_pos_nonneg [of r] by (auto simp: round64_def)
    then show ?thesis by simp
  next
    case 3
    then show ?thesis using le round_pos_mono [of "- r" "- q"] by (simp add: round64_def)
  qed
qed

lemma round64_nonneg: "0 \<le> q \<Longrightarrow> 0 \<le> round64 q"
  using round64_mono [of 0 q] by simp

lemma round_pos_nat:
  assumes "0 < n" "n \<le> 2 ^ 53"
  shows "round_pos (of_nat n) = of_nat n"
proof -
  let ?q = "of_nat n :: rat"
  have q: "1 \<le> ?q" "?q \<le> 2 powi 53" using assms of_nat_mono [of n "2 ^ 53", where ?'a = rat] by (simp_all add: power_int_def)
  have "0 \<le> binade ?q" using binade_bounds(2) [of ?q] q powi_le [of "binade ?q + 1" 0] by (cases "0 \<le> binade ?q") simp_all
  moreover have "binade ?q \<le> 53"
  proof (rule ccontr)
    assume "\<not> binade ?q \<le> 53"
    then have "2 powi 53 < (2 :: rat) powi binade ?q" by (intro powi_less) simp
    then show False using binade_bounds(1) [of ?q] q by simp
  qed
  ultimately have e: "exponent ?q = binade ?q - 52" "exponent ?q \<le> 1" by (simp_all add: exponent_def)
  show ?thesis
  proof (cases "exponent ?q = 1")
    case True
    then have "2 powi 53 \<le> ?q" using binade_bounds(1) [of ?q] q(1) e(1) by simp
    then have "?q = 2 powi 53" using q(2) by simp
    then have "?q / 2 powi exponent ?q = of_int (2 ^ 52)" unfolding True by (simp add: power_int_def)
    then show ?thesis by (rule round_pos_eq)
  next
    case False
    then have "exponent ?q = - int (nat (- exponent ?q))" using e(2) by simp
    then have "?q / 2 powi exponent ?q = ?q * 2 ^ nat (- exponent ?q)" by (metis divide_inverse power_int_minus inverse_inverse_eq power_int_of_nat)
    also have "\<dots> = of_int (int n * 2 ^ nat (- exponent ?q))" by simp
    finally show ?thesis by (rule round_pos_eq)
  qed
qed

lemma round64_of_nat: "n \<le> 2 ^ 53 \<Longrightarrow> round64 (of_nat n) = of_nat n"
  using round_pos_nat [of n] by (cases "n = 0") (simp_all add: round64_def)

text \<open>The relative error, above the subnormal numbers.\<close>

lemma round64_error:
  assumes "0 < q" "- 1022 \<le> binade q"
  shows "\<bar>round64 q - q\<bar> \<le> q / 2 ^ 53"
proof -
  let ?u = "(2 :: rat) powi exponent q" let ?x = "q / ?u"
  have "exponent q = binade q - 52" using assms(2) by (simp add: exponent_def)
  then have "?u * 2 ^ 52 \<le> q" using binade_bounds(1) [OF assms(1)] powi_add [of "exponent q" 52] by (simp add: power_int_def)
  moreover have "round64 q - q = (of_int (nearest_even ?x) - ?x) * ?u"
    using assms(1) by (simp add: round64_def round_pos_def left_diff_distrib)
  then have "\<bar>round64 q - q\<bar> \<le> 1 / 2 * ?u"
    using nearest_even_error [of ?x] by (simp add: abs_mult mult_right_mono)
  ultimately show ?thesis by simp
qed

end
