(* ===== verification/Grid.thy ===== *)
theory Grid
  imports Prelude Go_Float
begin

text \<open>
  The grid of \<open>src/pkg/routing/routing.go\<close>: the position of a sector's sensor, and the position of a station on the
  border. Every operation on \<open>float64\<close> values is the exact one followed by \<open>round64\<close>, with one abbreviation:
  \<open>math.Ceil(math.Sqrt(float64(n)))\<close> is written as the exact rounded-up root, which it is for every \<open>n\<close> from 0 to
  \<open>2 ^ 50\<close>.
\<close>

record Coordinate =
  X :: rat
  Y :: rat

text \<open>The least \<open>k\<close> from the given one on whose square reaches \<open>n\<close>.\<close>

function ceil_sqrt_from :: "nat \<Rightarrow> nat \<Rightarrow> nat" where
  "ceil_sqrt_from k n = (if k * k < n then ceil_sqrt_from (Suc k) n else k)"
  by auto

termination
  by (relation "measure (\<lambda>(k, n). n - k * k)") auto

declare ceil_sqrt_from.simps [simp del]

definition ceil_sqrt :: "nat \<Rightarrow> nat" where
  "ceil_sqrt n = ceil_sqrt_from 0 n"

definition float64 :: "int \<Rightarrow> rat" where
  "float64 i = round64 (of_int i)"

text \<open>\<open>None\<close> where a division by zero or the root of a negative number gives an infinity or no number at all, and, for a
  sensor, where the conversion of that to an \<open>int\<close> is left to the implementation.\<close>

definition CalculateSensorPosition :: "int \<Rightarrow> int \<Rightarrow> Coordinate option" where
  "CalculateSensorPosition sectorID maxSensors =
     (if maxSensors < 0 then None
      else
        let sectorID = (if sectorID \<le> 0 then 1 else sectorID);
            largura = int (ceil_sqrt (nat maxSensors));
            largura = (if largura = 0 then 1 else largura);
            x = round64 (float64 ((sectorID - 1) mod largura) + 1);
            y = round64 (float64 ((sectorID - 1) div largura) + 1)
        in Some \<lparr>X = x, Y = y\<rparr>)"

definition grid_height :: "nat \<Rightarrow> int" where
  "grid_height maxSensors = \<lceil>round64 (float64 (int maxSensors) / of_nat (ceil_sqrt maxSensors))\<rceil>"

text \<open>The point at a distance from the corner, going round the border.\<close>

definition border_point :: "rat \<Rightarrow> rat \<Rightarrow> rat \<Rightarrow> rat \<Rightarrow> rat \<Rightarrow> Coordinate" where
  "border_point bordaX bordaY top_right top_right_bottom posicao =
     (if posicao \<le> bordaX then \<lparr>X = posicao, Y = 0\<rparr>
      else if posicao \<le> top_right then \<lparr>X = bordaX, Y = round64 (posicao - bordaX)\<rparr>
      else if posicao \<le> top_right_bottom then \<lparr>X = round64 (bordaX - round64 (posicao - top_right)), Y = bordaY\<rparr>
      else \<lparr>X = 0, Y = round64 (bordaY - round64 (posicao - top_right_bottom))\<rparr>)"

definition CalculateStationPosition :: "int \<Rightarrow> int \<Rightarrow> int \<Rightarrow> Coordinate option" where
  "CalculateStationPosition slot totalStations maxSensors =
     (if maxSensors \<le> 0 \<or> totalStations = 0 then None
      else
        let largura = of_nat (ceil_sqrt (nat maxSensors));
            altura = of_int (grid_height (nat maxSensors));
            bordaX = round64 (largura + 1);
            bordaY = round64 (altura + 1);
            top_right = round64 (bordaX + bordaY);
            top_right_bottom = round64 (top_right + bordaX);
            perimetroTotal = round64 (top_right_bottom + bordaY);
            espacamento = round64 (perimetroTotal / float64 totalStations);
            posicao = round64 (round64 (float64 slot - 1 / 2) * espacamento)
        in Some (border_point bordaX bordaY top_right top_right_bottom posicao))"

section \<open>Whole numbers\<close>

lemma ceil_sqrt_from_bound:
  "(\<forall>j < k. j * j < n) \<Longrightarrow> n \<le> ceil_sqrt_from k n * ceil_sqrt_from k n \<and> (\<forall>j < ceil_sqrt_from k n. j * j < n)"
proof (induction k n rule: ceil_sqrt_from.induct)
  case (1 k n)
  then show ?case by (subst (1 2 3) ceil_sqrt_from.simps) (auto simp: less_Suc_eq)
qed

lemma ceil_sqrt_bounds: "n \<le> ceil_sqrt n * ceil_sqrt n" "j < ceil_sqrt n \<Longrightarrow> j * j < n"
  using ceil_sqrt_from_bound [of 0 n] by (auto simp: ceil_sqrt_def)

lemma ceil_sqrt_small: "n \<le> 2 ^ 50 \<Longrightarrow> ceil_sqrt n \<le> 2 ^ 25"
  using ceil_sqrt_bounds(2) [of "2 ^ 25" n] by (cases "2 ^ 25 < ceil_sqrt n") simp_all

lemma ceil_sqrt_pos: "0 < n \<Longrightarrow> 0 < ceil_sqrt n"
  using ceil_sqrt_bounds(1) [of n] by (cases "ceil_sqrt n") simp_all

lemma float64_nat: "n \<le> 2 ^ 53 \<Longrightarrow> float64 (int n) = of_nat n"
  using round64_of_nat [of n] by (simp add: float64_def)

lemma whole_sum: "a + b \<le> 2 ^ 53 \<Longrightarrow> round64 (of_nat a + of_nat b) = of_nat (a + b)"
  using round64_of_nat [of "a + b"] by simp

lemma float64_plus_1:
  assumes "0 \<le> i" "i < 2 ^ 53"
  shows "round64 (float64 i + 1) = of_int (i + 1)"
proof -
  obtain n where n: "i = int n" using assms(1) nonneg_int_cases by blast
  then have "n + 1 \<le> 2 ^ 53" using assms(2) by simp
  then show ?thesis using float64_nat [of n] whole_sum [of n 1] n by simp
qed

section \<open>Sensors\<close>

text \<open>Sectors tile the grid: with the least square grid that holds all sensors, each sector from 1 to their
  number has a cell inside the grid, and the cell determines the sector, row by row, so no two
  sectors share a position.\<close>

lemma sensor_cells:
  assumes "1 \<le> sectorID" "sectorID \<le> int maxSensors" "maxSensors \<le> 2 ^ 50"
  shows "\<exists>c. CalculateSensorPosition sectorID (int maxSensors) = Some c \<and> 1 \<le> X c \<and> X c \<le> of_nat (ceil_sqrt maxSensors) \<and>
    1 \<le> Y c \<and> Y c \<le> of_nat (ceil_sqrt maxSensors) \<and> of_int sectorID = (Y c - 1) * of_nat (ceil_sqrt maxSensors) + X c"
proof -
  let ?w = "int (ceil_sqrt maxSensors)" let ?q = "(sectorID - 1) div ?w" let ?r = "(sectorID - 1) mod ?w"
  have n: "int maxSensors \<le> ?w * ?w" using ceil_sqrt_bounds(1) [of maxSensors] by (metis of_nat_le_iff of_nat_mult)
  then have w: "0 < ?w" using assms by (cases "ceil_sqrt maxSensors = 0") auto
  have e: "?q * ?w + ?r = sectorID - 1" by simp
  have b: "0 \<le> ?r" "?r < ?w" "0 \<le> ?q" using w assms(1) by (simp_all add: pos_imp_zdiv_nonneg_iff)
  have q: "?q < ?w"
  proof (rule ccontr)
    assume "\<not> ?q < ?w"
    then have "?w * ?w \<le> ?q * ?w" using w by (simp add: mult_right_mono)
    also have "\<dots> \<le> sectorID - 1" using e b(1) by linarith
    finally show False using n assms(2) by simp
  qed
  have l: "?w < 2 ^ 53" using ceil_sqrt_small [OF assms(3)] by simp
  have p: "CalculateSensorPosition sectorID (int maxSensors) = Some \<lparr>X = of_int (?r + 1), Y = of_int (?q + 1)\<rparr>"
    using w assms(1) float64_plus_1 [OF b(1) order_less_trans [OF b(2) l]] float64_plus_1 [OF b(3) order_less_trans [OF q l]]
    by (simp add: CalculateSensorPosition_def Let_def)
  have "sectorID = ?q * ?w + (?r + 1)" using e by linarith
  then have "(of_int sectorID :: rat) = of_int (?q * ?w + (?r + 1))" by (rule arg_cong)
  also have "\<dots> = (of_int (?q + 1) - 1) * of_nat (ceil_sqrt maxSensors) + of_int (?r + 1)"
    by (simp only: of_int_add of_int_mult of_int_of_nat_eq of_int_1 add_diff_cancel_right')
  finally have "of_int sectorID = (of_int (?q + 1) - 1) * of_nat (ceil_sqrt maxSensors) + (of_int (?r + 1) :: rat)" .
  moreover have "?r + 1 \<le> ?w" "?q + 1 \<le> ?w" using b q by linarith+
  then have "of_int (?r + 1) \<le> (of_nat (ceil_sqrt maxSensors) :: rat)" "of_int (?q + 1) \<le> (of_nat (ceil_sqrt maxSensors) :: rat)"
    by (metis of_int_le_iff of_int_of_nat_eq)+
  moreover have "1 \<le> (of_int (?r + 1) :: rat)" "1 \<le> (of_int (?q + 1) :: rat)" using b by simp_all
  ultimately show ?thesis unfolding p option.inject by (intro exI conjI) (rule refl | simp only: Coordinate.select_convs)+
qed

section \<open>Stations\<close>

lemma binade_ge: "2 powi k \<le> q \<Longrightarrow> k \<le> binade q"
proof (rule ccontr)
  assume a: "2 powi k \<le> q" "\<not> k \<le> binade q"
  then have "0 < q" using powi_pos order_less_le_trans by blast
  then have "q < 2 powi k" using binade_bounds(2) [of q] powi_le [of "binade q + 1" k] a(2) by simp
  then show False using a(1) by simp
qed

lemma round64_upper:
  assumes "1 / 2 ^ 60 \<le> q"
  shows "round64 q \<le> q * (1 + 1 / 2 ^ 53)"
proof -
  have "(2 :: rat) powi (- 1022) \<le> 2 powi (- 60)" by (rule powi_le) simp
  also have "\<dots> = 1 / 2 ^ 60" by (simp add: power_int_def inverse_eq_divide power_divide)
  finally have "- 1022 \<le> binade q" using assms binade_ge by (meson order_trans)
  moreover have "0 < q" using assms by (rule order_less_le_trans [rotated]) simp
  ultimately have "\<bar>round64 q - q\<bar> \<le> q / 2 ^ 53" by (intro round64_error)
  then have "round64 q \<le> q + q / 2 ^ 53" by linarith
  then show ?thesis by (simp add: distrib_left)
qed

text \<open>The distance from the corner stays within the perimeter, in spite of three roundings.\<close>

lemma spacing_bound:
  fixes s n :: rat
  assumes "1 \<le> s" "s \<le> n" "n \<le> 2 ^ 50"
  shows "(s - 1 / 2) * (1 + 1 / 2 ^ 53) * (1 + 1 / 2 ^ 53) \<le> n"
proof -
  have "(s - 1 / 2) * ((1 + 1 / 2 ^ 53) * (1 + 1 / 2 ^ 53)) \<le> (n - 1 / 2) * ((1 + 1 / 2 ^ 53) * (1 + 1 / 2 ^ 53))"
    using assms by (intro mult_right_mono) simp_all
  also have "\<dots> \<le> n" using assms by (simp add: field_simps)
  finally show ?thesis by (simp add: mult.assoc)
qed

lemma posicao_bounds:
  assumes "1 \<le> slot" "slot \<le> stations" "stations \<le> 2 ^ 50" "1 \<le> P" "P \<le> 2 ^ 53"
  shows "0 \<le> round64 (round64 (of_nat slot - 1 / 2) * round64 (of_nat P / of_nat stations))"
    "round64 (round64 (of_nat slot - 1 / 2) * round64 (of_nat P / of_nat stations)) \<le> of_nat P"
proof -
  let ?u = "1 + 1 / 2 ^ 53 :: rat" and ?s = "of_nat slot :: rat" and ?n = "of_nat stations :: rat" and ?p = "of_nat P :: rat"
  have s: "1 \<le> ?s" "?s \<le> ?n" "?n \<le> 2 ^ 50" "1 \<le> ?p"
    using assms of_nat_mono [of stations "2 ^ 50", where ?'a = rat] by simp_all
  have "1 / 2 ^ 60 \<le> ?p / ?n"
  proof -
    have "?n \<le> ?p * 2 ^ 60" using s by (simp add: order_trans [of _ "2 ^ 50"] order_trans [of ?n "2 ^ 50"])
    then show ?thesis using s by (simp add: field_simps)
  qed
  then have b: "round64 (?p / ?n) \<le> ?p / ?n * ?u" "0 \<le> round64 (?p / ?n)" by (rule round64_upper) (rule round64_nonneg, simp)
  have "1 / 2 ^ 60 \<le> (1 / 2 :: rat)" "1 / 2 \<le> ?s - 1 / 2" using s(1) by simp_all
  then have "1 / 2 ^ 60 \<le> ?s - 1 / 2" by (rule order_trans)
  then have a: "round64 (?s - 1 / 2) \<le> (?s - 1 / 2) * ?u" "0 \<le> round64 (?s - 1 / 2)"
    by (rule round64_upper) (rule round64_nonneg, use s in simp)
  show "0 \<le> round64 (round64 (?s - 1 / 2) * round64 (?p / ?n))" using a b by (simp add: round64_nonneg)
  have "round64 (?s - 1 / 2) * round64 (?p / ?n) \<le> ((?s - 1 / 2) * ?u) * (?p / ?n * ?u)"
    using a b s by (intro mult_mono) simp_all
  also have "\<dots> = (?s - 1 / 2) * ?u * ?u * (?p / ?n)" by (simp add: ac_simps)
  also have "\<dots> \<le> ?n * (?p / ?n)" using spacing_bound [OF s(1-3)] s by (intro mult_right_mono) simp_all
  also have "\<dots> = ?p" using s by simp
  finally show "round64 (round64 (?s - 1 / 2) * round64 (?p / ?n)) \<le> ?p"
    using round64_mono round64_of_nat [OF assms(5)] by metis
qed

lemma round64_between: "0 \<le> q \<Longrightarrow> q \<le> of_nat n \<Longrightarrow> n \<le> 2 ^ 53 \<Longrightarrow> 0 \<le> round64 q \<and> round64 q \<le> of_nat n"
  using round64_nonneg round64_mono round64_of_nat by metis

lemma grid_height_bounds:
  assumes "0 < n" "n \<le> 2 ^ 50"
  shows "0 \<le> grid_height n" "grid_height n \<le> int (ceil_sqrt n)"
proof -
  let ?w = "of_nat (ceil_sqrt n) :: rat"
  have w: "0 < ?w" using ceil_sqrt_pos [OF assms(1)] by simp
  have "of_nat n \<le> ?w * ?w" using ceil_sqrt_bounds(1) [of n] by (metis of_nat_le_iff of_nat_mult)
  then have "of_nat n / ?w \<le> ?w" using w by (simp add: pos_divide_le_eq)
  then have "0 \<le> round64 (of_nat n / ?w) \<and> round64 (of_nat n / ?w) \<le> ?w"
    using w ceil_sqrt_small [OF assms(2)] by (intro round64_between) simp_all
  then show "0 \<le> grid_height n" "grid_height n \<le> int (ceil_sqrt n)"
    using assms(2) float64_nat [of n] by (auto simp: grid_height_def ceiling_le_iff)
qed

lemma border_point_on_border:
  assumes "a \<le> 2 ^ 26" "b \<le> 2 ^ 26" "0 \<le> p" "p \<le> of_nat (a + b + a + b)"
    and "c = border_point (of_nat a) (of_nat b) (of_nat (a + b)) (of_nat (a + b + a)) p"
  shows "0 \<le> X c \<and> X c \<le> of_nat a \<and> 0 \<le> Y c \<and> Y c \<le> of_nat b \<and> (X c = 0 \<or> X c = of_nat a \<or> Y c = 0 \<or> Y c = of_nat b)"
proof -
  have d: "0 \<le> round64 (p - of_nat k) \<and> round64 (p - of_nat k) \<le> of_nat j" if "of_nat k < p" "p \<le> of_nat (k + j)" "j \<le> 2 ^ 26" for k j
    using that by (intro round64_between) simp_all
  have m: "0 \<le> round64 (of_nat j - q) \<and> round64 (of_nat j - q) \<le> of_nat j" if "0 \<le> q \<and> q \<le> of_nat j" "j \<le> 2 ^ 26" for j q
    using that by (intro round64_between) simp_all
  have o: "(of_nat a :: rat) \<le> of_nat (a + b)" "(of_nat (a + b) :: rat) \<le> of_nat (a + b + a)" by simp_all
  consider "p \<le> of_nat a" | "of_nat a < p" "p \<le> of_nat (a + b)" | "of_nat (a + b) < p" "p \<le> of_nat (a + b + a)" | "of_nat (a + b + a) < p"
    by linarith
  then show ?thesis
  proof cases
    case 1
    then have "c = \<lparr>X = p, Y = 0\<rparr>" using assms(5) by (simp only: border_point_def if_True)
    then show ?thesis using 1 assms(3) by simp
  next
    case 2
    then have "c = \<lparr>X = of_nat a, Y = round64 (p - of_nat a)\<rparr>" using assms(5) by (simp only: border_point_def not_le [symmetric] if_True if_False)
    then show ?thesis using d [OF 2 assms(2)] by simp
  next
    case 3
    then have "\<not> p \<le> of_nat a" "\<not> p \<le> of_nat (a + b)" using o by linarith+
    then have "c = \<lparr>X = round64 (of_nat a - round64 (p - of_nat (a + b))), Y = of_nat b\<rparr>"
      using 3(2) assms(5) by (simp only: border_point_def if_True if_False)
    then show ?thesis using m [OF d [OF 3 assms(1)] assms(1)] by simp
  next
    case 4
    then have "\<not> p \<le> of_nat a" "\<not> p \<le> of_nat (a + b)" "\<not> p \<le> of_nat (a + b + a)" using o by linarith+
    then have "c = \<lparr>X = 0, Y = round64 (of_nat b - round64 (p - of_nat (a + b + a)))\<rparr>" using assms(5) by (simp only: border_point_def if_False)
    then show ?thesis using m [OF d [OF 4 assms(4,2)] assms(2)] by simp
  qed
qed

text \<open>C32. Stations stand on the border: for any number of stations and sensors up to \<open>2 ^ 50\<close>, and in spite of all
  rounding, the position of each slot lies on the edge of the rectangle one cell outside the grid of
  sensors, never beyond a corner.\<close>

theorem station_on_border:
  assumes "1 \<le> slot" "slot \<le> stations" "stations \<le> 2 ^ 50" "1 \<le> maxSensors" "maxSensors \<le> 2 ^ 50"
  shows "\<exists>c. CalculateStationPosition (int slot) (int stations) (int maxSensors) = Some c \<and>
    0 \<le> X c \<and> X c \<le> of_nat (ceil_sqrt maxSensors + 1) \<and> 0 \<le> Y c \<and> Y c \<le> of_int (grid_height maxSensors + 1) \<and>
    (X c = 0 \<or> X c = of_nat (ceil_sqrt maxSensors + 1) \<or> Y c = 0 \<or> Y c = of_int (grid_height maxSensors + 1))"
proof -
  obtain h where h: "grid_height maxSensors = int h" using grid_height_bounds(1) [of maxSensors] assms(4,5) nonneg_int_cases by fastforce
  let ?a = "ceil_sqrt maxSensors + 1" and ?b = "h + 1"
  have "h \<le> ceil_sqrt maxSensors" using grid_height_bounds(2) [of maxSensors] assms(4,5) h by simp
  then have l: "?a \<le> 2 ^ 26" "?b \<le> 2 ^ 26" using ceil_sqrt_small [OF assms(5)] by simp_all
  let ?P = "?a + ?b + ?a + ?b"
  let ?pos = "round64 (round64 (of_nat slot - 1 / 2) * round64 (of_nat ?P / of_nat stations))"
  have p: "0 \<le> ?pos" "?pos \<le> of_nat ?P" using posicao_bounds [OF assms(1-3), of ?P] l by simp_all
  have f: "float64 (int slot) = of_nat slot" "float64 (int stations) = of_nat stations" using assms float64_nat by simp_all
  have s: "round64 (of_nat (ceil_sqrt maxSensors) + 1) = of_nat ?a" "round64 (of_int (grid_height maxSensors) + 1) = of_nat ?b"
    "round64 (of_nat ?a + of_nat ?b) = of_nat (?a + ?b)" "round64 (of_nat (?a + ?b) + of_nat ?a) = of_nat (?a + ?b + ?a)"
    "round64 (of_nat (?a + ?b + ?a) + of_nat ?b) = of_nat ?P"
    using whole_sum [of "ceil_sqrt maxSensors" 1] whole_sum [of h 1] whole_sum [of ?a ?b] whole_sum [of "?a + ?b" ?a] whole_sum [of "?a + ?b + ?a" ?b] l h
    by simp_all
  define c where "c = border_point (of_nat ?a) (of_nat ?b) (of_nat (?a + ?b)) (of_nat (?a + ?b + ?a)) ?pos"
  have "CalculateStationPosition (int slot) (int stations) (int maxSensors) = Some c"
    unfolding CalculateStationPosition_def Let_def nat_int f s c_def using assms by simp
  then show ?thesis using border_point_on_border [OF l p c_def] h by auto
qed

theorem station_on_border_witness:
  "\<exists>c. CalculateStationPosition 1 4 25 = Some c \<and> 0 \<le> X c \<and> X c \<le> of_nat (ceil_sqrt 25 + 1) \<and>
     (X c = 0 \<or> X c = of_nat (ceil_sqrt 25 + 1) \<or> Y c = 0 \<or> Y c = of_int (grid_height 25 + 1))"
  using station_on_border [of 1 4 25] by auto

end
