(* ===== verification/API_Types.thy ===== *)
theory API_Types
  imports Wire Grid
begin

text \<open>
  The message structs of \<open>src/pkg/server/api_types.go\<close>, with \<open>NewErrorResponse\<close> of \<open>src/pkg/server/http_client.go\<close> and \<open>RescueEvent\<close>
  of \<open>src/pkg/model/types.go\<close>. The handlers decode structs of their own, so the lemmas relate the two: a
  registration or an action written with the API's struct is what the station's handler reads, and the
  health check answers with the API's struct. JSON is given for the structs without floating-point fields.
\<close>

section \<open>Requests\<close>

record RegisterDroneRequest =
  rd_DroneID :: string
  rd_IP :: string

record TelemetryRequest =
  tr_DroneID :: string
  tr_Status :: string
  tr_Battery :: rat

record DispatchMissionRequest =
  dm_Mission :: Mission
  dm_StationAnchor :: Coordinate

record ActionRequest =
  ar_EventID :: string
  ar_DroneID :: string
  ar_Reason :: string

section \<open>Responses\<close>

record ActionResponse =
  as_Success :: bool
  as_Message :: string

record HealthCheckResponse =
  hc_Status :: string
  hc_Timestamp :: instant

record ErrorResponse =
  er_Error :: string
  er_Code :: string
  er_Timestamp :: instant

text \<open>The last argument is what the clock shows.\<close>

definition NewErrorResponse :: "string \<Rightarrow> string \<Rightarrow> instant \<Rightarrow> ErrorResponse" where
  "NewErrorResponse err code now = \<lparr>er_Error = err, er_Code = code, er_Timestamp = now\<rparr>"

record RescueEvent =
  re_EventID :: string
  FullScan :: bool

section \<open>JSON\<close>

text \<open>A string field with \<open>omitempty\<close>.\<close>

definition omit_empty :: "string \<Rightarrow> string \<Rightarrow> (string \<times> json) list" where
  "omit_empty k v = (if v = [] then [] else [(k, JStr v)])"

definition json_of_RegisterDroneRequest :: "RegisterDroneRequest \<Rightarrow> json" where
  "json_of_RegisterDroneRequest r = JObj ([(''drone_id'', JStr (rd_DroneID r))] @ omit_empty ''ip'' (rd_IP r))"

definition json_of_ActionRequest :: "ActionRequest \<Rightarrow> json" where
  "json_of_ActionRequest r =
     JObj ([(''event_id'', JStr (ar_EventID r)), (''drone_id'', JStr (ar_DroneID r))] @ omit_empty ''reason'' (ar_Reason r))"

definition json_of_ActionResponse :: "ActionResponse \<Rightarrow> json" where
  "json_of_ActionResponse r = JObj ([(''success'', JBool (as_Success r))] @ omit_empty ''message'' (as_Message r))"

definition ActionResponse_fields :: "ActionResponse fields" where
  "ActionResponse_fields =
     [(''success'', scalar as_bool (\<lambda>v r. r\<lparr>as_Success := v\<rparr>)), (''message'', scalar as_string (\<lambda>v r. r\<lparr>as_Message := v\<rparr>))]"

definition json_of_HealthCheckResponse :: "time_codec \<Rightarrow> HealthCheckResponse \<Rightarrow> json option" where
  "json_of_HealthCheckResponse T r =
     map_option (\<lambda>t. JObj [(''status'', JStr (hc_Status r)), (''timestamp'', JStr t)]) (time_Marshal T (hc_Timestamp r))"

definition json_of_ErrorResponse :: "time_codec \<Rightarrow> ErrorResponse \<Rightarrow> json option" where
  "json_of_ErrorResponse T r =
     map_option (\<lambda>t. JObj [(''error'', JStr (er_Error r)), (''code'', JStr (er_Code r)), (''timestamp'', JStr t)])
       (time_Marshal T (er_Timestamp r))"

definition ErrorResponse_fields :: "time_codec \<Rightarrow> ErrorResponse fields" where
  "ErrorResponse_fields T =
     [(''error'', scalar as_string (\<lambda>v r. r\<lparr>er_Error := v\<rparr>)), (''code'', scalar as_string (\<lambda>v r. r\<lparr>er_Code := v\<rparr>)),
      (''timestamp'', scalar (as_time T) (\<lambda>v r. r\<lparr>er_Timestamp := v\<rparr>))]"

lemma api_names [simp]:
  "to_valid ''drone_id'' = ''drone_id''" "to_valid ''ip'' = ''ip''" "to_valid ''reason'' = ''reason''" "to_valid ''success'' = ''success''"
  "to_valid ''message'' = ''message''" "to_valid ''error'' = ''error''" "to_valid ''code'' = ''code''" "to_valid ''timestamp'' = ''timestamp''"
  by (rule to_valid_ascii, simp add: byte_val_def)+

lemmas api_json = json_of_RegisterDroneRequest_def json_of_ActionRequest_def json_of_ActionResponse_def
  json_of_ErrorResponse_def omit_empty_def

lemma fold_key_lengths:
  "fold_key ''ip'' = ''IP''" "fold_key ''drone_id'' = ''DRONE_ID''" "fold_key ''reason'' = ''REASON''" "fold_key ''event_id'' = ''EVENT_ID''"
  by (simp_all add: fold_key.simps byte_val_def char_of_eqI)

text \<open>The station reads the API's requests: their further members belong to no field of the handler's struct.\<close>

lemma registration_understood:
  assumes "valid_utf8 (rd_DroneID r)"
  shows "decode_drone (go_station_json T) (Marshal (json_of_RegisterDroneRequest r)) = Some (rd_DroneID r)"
  unfolding go_station_json_def station_json.simps
  using assms by (intro Unmarshal_Marshal) (auto simp: api_json drone_id_fields_def find_field_def fold_key_lengths)

lemma action_understood:
  assumes "valid_utf8 (ar_EventID r)" "valid_utf8 (ar_DroneID r)"
  shows "decode_ack (go_station_json T) (Marshal (json_of_ActionRequest r)) = (ar_EventID r, ar_DroneID r)"
  unfolding go_station_json_def station_json.simps
  using assms by (intro Unmarshal_Marshal(4) [where ok = True]) (auto simp: api_json ack_fields_def find_field_def fold_key_lengths)

lemma health_is_response:
  "marshal_health (go_broker_json T f g) status t = encoded (json_of_HealthCheckResponse T \<lparr>hc_Status = status, hc_Timestamp = t\<rparr>)"
  by (simp add: go_broker_json_def json_health_def json_of_HealthCheckResponse_def)

lemma action_response_roundtrip:
  assumes "valid_utf8 (as_Message r)"
  shows "Unmarshal (fill_struct ActionResponse_fields) \<lparr>as_Success = False, as_Message = []\<rparr> (Marshal (json_of_ActionResponse r)) = Some r"
  using assms by (intro Unmarshal_Marshal) (auto simp: api_json ActionResponse_fields_def find_field_def)

lemma error_response_roundtrip:
  assumes "time_ok T" "valid_utf8 err" "valid_utf8 code" "json_of_ErrorResponse T (NewErrorResponse err code now) = Some j"
  shows "Unmarshal (fill_struct (ErrorResponse_fields T)) \<lparr>er_Error = [], er_Code = [], er_Timestamp = zero\<rparr> (Marshal j) =
    Some (NewErrorResponse err code now)"
proof -
  obtain t where t: "time_Marshal T now = Some t"
    "j = JObj [(''error'', JStr err), (''code'', JStr code), (''timestamp'', JStr t)]"
    using assms(4) by (auto simp: json_of_ErrorResponse_def NewErrorResponse_def)
  have "time_Unmarshal T t = Some now" "to_valid t = t" using assms(1) t(1) by (simp_all add: time_ok_def)
  then show ?thesis
    using t(2) assms(2,3) by (intro Unmarshal_Marshal) (auto simp: ErrorResponse_fields_def find_field_def NewErrorResponse_def)
qed

end
