(* ===== verification/Broker_Workers.thy ===== *)
theory Broker_Workers
  imports Broker_Flow
begin

text \<open>
  The broker at the granularity of its locks. \<open>Broker\<close> runs \<open>process\<close>, \<open>HandleQueuePop\<close> and \<open>HandleQueueResolve\<close> as one step each;
  the code takes several locks in each of them, one after the other, \<open>process\<close> waits for the ledger in between, and ten
  workers run it at once. Here a worker is at one of the points of \<open>process\<close>, a handler of a station's request may stand
  between its two locks with a mission in hand, and a run interleaves all of them with the other handlers and the
  background passes. One worker or one handler alone does what the definitions of \<open>Broker\<close> say; together the workers
  still charge an event at most once in the time the filter remembers it, and no event is lost.
\<close>

section \<open>Workers\<close>

text \<open>What a worker is about to do next, with the values it has by then.\<close>

datatype job =
    Idle
  | Checking SensorData
  | Stamping SensorData
  | Routing Mission
  | Parking string Mission
  | Forwarding string Mission
  | Charging Mission
  | Queueing Mission
  | Gossiping string Mission

fun worker_step :: "('r, 'sk) broker_cfg \<Rightarrow> process_env \<Rightarrow> job \<Rightarrow> 'r broker \<Rightarrow> job \<times> 'r broker" where
  "worker_step cfg env Idle s =
     (case packetsChan s of
        [] \<Rightarrow> (Idle, s)
      | rawBytes # rest \<Rightarrow>
          let s = s\<lparr>packetsChan := rest\<rparr>
          in (case unmarshal_data (cfg_json cfg) rawBytes of
                None \<Rightarrow> (Idle, s)
              | Some data \<Rightarrow>
                  if \<not> IsRequisition data \<or> SensorID data = [] \<or> SectorID data \<le> 0 then (Idle, s) else (Checking data, s)))"
| "worker_step cfg env (Checking data) s =
     (let (filter', fresh) = CheckAndAdd (env_now env) (Filter s) (EventID data)
      in (if fresh then Stamping data else Idle, s\<lparr>Filter := filter'\<rparr>))"
| "worker_step cfg env (Stamping data) s =
     (let (cell', currentClock) = stamp env data (globalLamportClock s)
      in (Routing (zero_Mission\<lparr>Payload := data, LamportClock := currentClock\<rparr>), s\<lparr>globalLamportClock := cell'\<rparr>))"
| "worker_step cfg env (Routing mission) s =
     (let ownerIP = GetOwnerIP (cfg_ring cfg) (Router s) (SectorID (Payload mission))
      in (if ownerIP \<noteq> [] \<and> \<not> isLocalIP (env_addrs env) ownerIP then Parking ownerIP mission else Charging mission, s))"
| "worker_step cfg env (Parking ownerIP mission) s =
     (Forwarding ownerIP mission, s\<lparr>Unverified := unverified_Store (env_now' env) (Unverified s) mission\<rparr>)"
| "worker_step cfg env (Forwarding ownerIP mission) s =
     (let rawWithClock = marshal_data (cfg_json cfg) ((Payload mission)\<lparr>InternalClock := LamportClock mission\<rparr>)
      in (Idle, s\<lparr>outbox := outbox s @ forwardPacket (env_udp env) ownerIP rawWithClock\<rparr>))"
| "worker_step cfg env (Charging mission) s =
     (if SpendCredit (cfg_crypto cfg) (cfg_rpc cfg) (env_net env) (cfg_ledger cfg) (Payload mission)
      then (Queueing mission, s) else (Gossiping ''NACK'' mission, s))"
| "worker_step cfg env (Queueing mission) s = (Gossiping ''ACK'' mission, s\<lparr>Queue := Enqueue (Queue s) mission\<rparr>)"
| "worker_step cfg env (Gossiping action mission) s =
     (Idle, broadcastValidationSync cfg (env_addrs env) action mission s)"

section \<open>Handlers\<close>

text \<open>A handler between its locks: \<open>HandleQueuePop\<close> with a mission it has taken from the queue and not yet noted as pending,
  \<open>HandleQueueResolve\<close> with one it has struck off and not yet put back.\<close>

datatype handler = CheckingOut Mission | Requeueing Mission

fun in_hand :: "handler \<Rightarrow> string" where
  "in_hand (CheckingOut mission) = event_of mission"
| "in_hand (Requeueing mission) = event_of mission"

definition pop_take :: "string \<Rightarrow> 'r broker \<Rightarrow> 'r broker \<times> handler list" where
  "pop_take verb s =
     (if verb \<noteq> ''GET'' then (s, [])
      else
        let (q, mission, found) = Dequeue (Queue s)
        in (s\<lparr>Queue := q\<rparr>, if found then [CheckingOut mission] else []))"

definition resolve_take :: "('r, 'sk) broker_cfg \<Rightarrow> string \<Rightarrow> bytes \<Rightarrow> 'r broker \<Rightarrow> 'r broker \<times> handler list" where
  "resolve_take cfg verb body s =
     (if verb \<noteq> ''POST'' then (s, [])
      else case decode_resolve (cfg_json cfg) body of
             None \<Rightarrow> (s, [])
           | Some (action, mission) \<Rightarrow>
               let eventID = event_of mission
               in case pendingMissions s eventID of
                    None \<Rightarrow> (s, [])
                  | Some _ \<Rightarrow>
                      (s\<lparr>pendingMissions := (pendingMissions s)(eventID := None)\<rparr>,
                       if action = ''REQUEUE'' then [Requeueing mission] else []))"

fun handler_finish :: "instant \<Rightarrow> handler \<Rightarrow> 'r broker \<Rightarrow> 'r broker" where
  "handler_finish now (CheckingOut mission) s =
     s\<lparr>pendingMissions := (pendingMissions s)(event_of mission \<mapsto> \<lparr>pm_Mission = mission, CheckoutTime = now\<rparr>)\<rparr>"
| "handler_finish now (Requeueing mission) s = s\<lparr>Queue := Enqueue (Queue s) mission\<rparr>"

section \<open>The crew\<close>

text \<open>A broker with its ten workers and the handlers under way; \<open>charged\<close> are the events \<open>SpendCredit\<close> was called for, in order.\<close>

record 'r crew =
  base :: "'r broker"
  jobs :: "job list"
  hands :: "handler list"
  charged :: "string list"

definition NewCrew :: "('r, 'sk) broker_cfg \<Rightarrow> 'r crew" where
  "NewCrew cfg = \<lparr>base = NewBroker cfg, jobs = replicate 10 Idle, hands = [], charged = []\<rparr>"

datatype crew_event =
    Worker nat process_env
  | PopTake string
  | ResolveTake string bytes
  | Finish nat instant
  | Whole broker_event

fun whole :: "broker_event \<Rightarrow> bool" where
  "whole (EWork env) = False"
| "whole (EPop now verb) = False"
| "whole (EResolve verb body) = False"
| "whole _ = True"

fun charges :: "job \<Rightarrow> string list" where
  "charges (Charging mission) = [event_of mission]"
| "charges _ = []"

fun crew_step :: "('r, 'sk) broker_cfg \<Rightarrow> 'r crew \<Rightarrow> crew_event \<Rightarrow> ('r crew, unit) outcome" where
  "crew_step cfg c (Worker i env) =
     (if i < length (jobs c) then
        let (job, s) = worker_step cfg env (jobs c ! i) (base c)
        in Returned (c\<lparr>base := s, jobs := (jobs c)[i := job], charged := charged c @ charges (jobs c ! i)\<rparr>) ()
      else Returned c ())"
| "crew_step cfg c (PopTake verb) =
     (let (s, hs) = pop_take verb (base c) in Returned (c\<lparr>base := s, hands := hands c @ hs\<rparr>) ())"
| "crew_step cfg c (ResolveTake verb body) =
     (let (s, hs) = resolve_take cfg verb body (base c) in Returned (c\<lparr>base := s, hands := hands c @ hs\<rparr>) ())"
| "crew_step cfg c (Finish i now) =
     (if i < length (hands c)
      then Returned (c\<lparr>base := handler_finish now (hands c ! i) (base c), hands := take i (hands c) @ drop (Suc i) (hands c)\<rparr>) ()
      else Returned c ())"
| "crew_step cfg c (Whole ev) =
     (if whole ev then on_state (\<lambda>s. c\<lparr>base := s\<rparr>) (broker_step cfg (base c) ev) else Returned c ())"

fun crew_run :: "('r, 'sk) broker_cfg \<Rightarrow> 'r crew \<Rightarrow> crew_event list \<Rightarrow> ('r crew, unit) outcome" where
  "crew_run cfg c [] = Returned c ()"
| "crew_run cfg c (ev # evs) = bind_outcome (crew_step cfg c ev) (\<lambda>c _. crew_run cfg c evs)"

section \<open>Undisturbed, a worker or a handler does what Broker says\<close>

lemma pop_split:
  "out_state (HandleQueuePop cfg now verb s) = (let (s, hs) = pop_take verb s in fold (handler_finish now) hs s)"
  by (auto simp: HandleQueuePop_def pop_take_def Let_def split: prod.split)

lemma resolve_split:
  "out_state (HandleQueueResolve cfg verb body s) = (let (s, hs) = resolve_take cfg verb body s in fold (handler_finish now) hs s)"
  by (auto simp: HandleQueueResolve_def resolve_take_def Let_def split: option.split)

fun work_alone :: "('r, 'sk) broker_cfg \<Rightarrow> process_env \<Rightarrow> nat \<Rightarrow> job \<times> 'r broker \<Rightarrow> job \<times> 'r broker" where
  "work_alone cfg env 0 js = js"
| "work_alone cfg env (Suc n) js = work_alone cfg env n (worker_step cfg env (fst js) (snd js))"

lemma work_alone_append: "work_alone cfg env (m + n) js = work_alone cfg env n (work_alone cfg env m js)"
  by (induction m arbitrary: js) simp_all

text \<open>From the point where the mission is made, a worker needs at most four more steps.\<close>

lemma routed_alone:
  "\<exists>n \<le> 4. work_alone cfg env n (Routing mission, s) =
     (Idle,
      let data = Payload mission; ownerIP = GetOwnerIP (cfg_ring cfg) (Router s) (SectorID data)
      in if ownerIP \<noteq> [] \<and> \<not> isLocalIP (env_addrs env) ownerIP then
           s\<lparr>Unverified := unverified_Store (env_now' env) (Unverified s) mission,
             outbox := outbox s @ forwardPacket (env_udp env) ownerIP (marshal_data (cfg_json cfg) (data\<lparr>InternalClock := LamportClock mission\<rparr>))\<rparr>
         else if SpendCredit (cfg_crypto cfg) (cfg_rpc cfg) (env_net env) (cfg_ledger cfg) data then
           broadcastValidationSync cfg (env_addrs env) ''ACK'' mission (s\<lparr>Queue := Enqueue (Queue s) mission\<rparr>)
         else broadcastValidationSync cfg (env_addrs env) ''NACK'' mission s)"
  (is "\<exists>n \<le> 4. ?P n")
proof -
  have "?P 3 \<or> ?P 4" by (simp add: eval_nat_numeral Let_def)
  moreover have "3 \<le> (4 :: nat)" "4 \<le> (4 :: nat)" by simp_all
  ultimately show ?thesis by blast
qed

lemma worker_alone: "\<exists>n \<le> 7. work_alone cfg env n (Idle, s) = (Idle, worker_turn cfg env s)"
proof (cases "packetsChan s")
  case Nil
  then show ?thesis by (intro exI [of _ 0]) (simp add: worker_turn_def)
next
  case (Cons raw rest)
  let ?s = "s\<lparr>packetsChan := rest\<rparr>"
  have turn: "worker_turn cfg env s = process cfg env raw ?s" using Cons by (simp add: worker_turn_def)
  show ?thesis
  proof (cases "\<exists>data. unmarshal_data (cfg_json cfg) raw = Some data \<and> IsRequisition data \<and> SensorID data \<noteq> [] \<and> \<not> SectorID data \<le> 0")
    case False
    then have "work_alone cfg env 1 (Idle, s) = (Idle, process cfg env raw ?s)"
      using Cons by (auto simp: process_def eval_nat_numeral split: option.split)
    then show ?thesis unfolding turn by (intro exI [of _ 1]) simp
  next
    case True
    then obtain data where d: "unmarshal_data (cfg_json cfg) raw = Some data" "IsRequisition data" "SensorID data \<noteq> []" "\<not> SectorID data \<le> 0"
      by blast
    obtain f fresh where f: "CheckAndAdd (env_now env) (Filter s) (EventID data) = (f, fresh)" by fastforce
    obtain cell clk where c: "stamp env data (globalLamportClock s) = (cell, clk)" by fastforce
    let ?t = "?s\<lparr>Filter := f, globalLamportClock := cell\<rparr>" and ?m = "zero_Mission\<lparr>Payload := data, LamportClock := clk\<rparr>"
    show ?thesis
    proof (cases fresh)
      case False
      then have "work_alone cfg env 2 (Idle, s) = (Idle, process cfg env raw ?s)"
        using Cons d f by (simp add: process_def eval_nat_numeral)
      then show ?thesis unfolding turn by (intro exI [of _ 2]) simp
    next
      case True
      have "work_alone cfg env 3 (Idle, s) = (Routing ?m, ?t)" using Cons d f c True by (simp add: eval_nat_numeral)
      moreover obtain n where "n \<le> 4" "work_alone cfg env n (Routing ?m, ?t) = (Idle, process cfg env raw ?s)"
        using routed_alone [of cfg env ?m ?t] d f c True by (auto simp: process_def Let_def)
      ultimately show ?thesis
        unfolding turn by (intro exI [of _ "3 + n"]) (simp add: work_alone_append del: work_alone.simps)
    qed
  qed
qed

section \<open>What the filter remembers\<close>

text \<open>The clock readings a step makes for the filter.\<close>

fun readings :: "crew_event \<Rightarrow> instant set" where
  "readings (Worker i env) = {env_now env}"
| "readings (Whole (ESync now verb body)) = {now}"
| "readings (Whole (EForget now order)) = {now}"
| "readings _ = {}"

definition remembered :: "instant \<Rightarrow> string \<Rightarrow> IdempotencyFilter \<Rightarrow> bool" where
  "remembered until e f \<longleftrightarrow> (\<exists>x. seen f e = Some x \<and> until \<le> x)"

lemma ttl_CheckAndAdd [simp]: "ttl (fst (CheckAndAdd now f e)) = ttl f"
  by (cases "seen f e") (simp_all add: CheckAndAdd_simps)

lemma remembered_CheckAndAdd: "remembered until e f \<Longrightarrow> remembered until e (fst (CheckAndAdd now f e'))"
  by (cases "seen f e'") (auto simp: CheckAndAdd_simps remembered_def)

lemma remembered_cleanup: "remembered until e f \<Longrightarrow> now \<le> until \<Longrightarrow> remembered until e (cleanupWorker_pass now order f)"
  by (auto simp: remembered_def cleanupWorker_pass_def cleanup_range_lookup)

lemma passed_remembered:
  "CheckAndAdd now f e = (f', True) \<Longrightarrow> until \<le> now + ttl f \<Longrightarrow> remembered until e f'"
  by (cases "seen f e") (auto simp: CheckAndAdd_simps remembered_def)

lemma remembered_refused: "remembered until e f \<Longrightarrow> \<not> snd (CheckAndAdd now f e)"
  by (auto simp: remembered_def CheckAndAdd_dup)

lemma filter_pending: "Filter (out_state (startPendingJanitor_range now order s)) = Filter s"
proof (induction order arbitrary: s)
  case (Cons e order)
  then show ?case by (cases "loggable e") (simp_all split: option.split)
qed simp

lemma filter_sync:
  "Filter (out_state (HandleShadowSync cfg now verb body s)) = Filter s \<or>
   (\<exists>e. Filter (out_state (HandleShadowSync cfg now verb body s)) = fst (CheckAndAdd now (Filter s) e))"
proof (cases "decode_sync (cfg_json cfg) body")
  case (Some x)
  obtain action e mission where x: "x = (action, e, mission)" by (cases x) auto
  have "Filter (out_state (HandleShadowSync cfg now verb body s)) \<in> {Filter s, fst (CheckAndAdd now (Filter s) e)}"
    using Some x by (auto simp: HandleShadowSync_def Let_def split: outcome.split prod.split)
  then show ?thesis by blast
qed (simp add: HandleShadowSync_def)

text \<open>Of the steps that are whole, gossip and the cleanup touch the filter.\<close>

lemma filter_whole:
  assumes "whole ev"
  shows "Filter (out_state (broker_step cfg s ev)) = Filter s \<or>
    (\<exists>now verb body e. ev = ESync now verb body \<and> Filter (out_state (broker_step cfg s ev)) = fst (CheckAndAdd now (Filter s) e)) \<or>
    (\<exists>now order. ev = EForget now order \<and> Filter (out_state (broker_step cfg s ev)) = cleanupWorker_pass now order (Filter s))"
proof (cases ev)
  case (ESync now verb body)
  then show ?thesis using filter_sync [of cfg now verb body s] by (auto simp: recovered_out_state)
next
  case (EDatagram d)
  then show ?thesis by (cases d) (auto simp: startUDPIngestion_turn_def Let_def)
next
  case (ETopology ips)
  then show ?thesis by (auto split: prod.split)
next
  case (ERescue addrs order)
  then show ?thesis by (auto split: prod.split)
qed (use assms in \<open>auto simp: filter_pending\<close>)

lemma remembered_whole:
  assumes "whole ev" "\<forall>t \<in> readings (Whole ev). t \<le> until" "remembered until e (Filter s)"
  shows "remembered until e (Filter (out_state (broker_step cfg s ev)))"
  using filter_whole [OF assms(1), of cfg s] assms(2,3) remembered_CheckAndAdd remembered_cleanup by auto

section \<open>What the workers owe the ledger\<close>

text \<open>The worker has an event the filter let through and has not charged it yet.\<close>

fun carries :: "string \<Rightarrow> job \<Rightarrow> bool" where
  "carries e (Stamping data) \<longleftrightarrow> EventID data = e"
| "carries e (Routing mission) \<longleftrightarrow> event_of mission = e"
| "carries e (Charging mission) \<longleftrightarrow> event_of mission = e"
| "carries e _ \<longleftrightarrow> False"

definition under_way :: "string \<Rightarrow> 'r crew \<Rightarrow> nat" where
  "under_way e c = length (filter (carries e) (jobs c))"

lemma filter_length_update:
  "i < length xs \<Longrightarrow> length (filter P (xs[i := y])) + of_bool (P (xs ! i)) = length (filter P xs) + of_bool (P y)"
proof (induction xs arbitrary: i)
  case (Cons x xs)
  then show ?case by (cases i) auto
qed simp

lemma worker_filter:
  assumes "worker_step cfg env job s = (job', s')"
  shows "Filter s' = Filter s \<or> (\<exists>e. Filter s' = fst (CheckAndAdd (env_now env) (Filter s) e))"
proof (cases job)
  case (Checking data)
  then have "s' = s\<lparr>Filter := fst (CheckAndAdd (env_now env) (Filter s) (EventID data))\<rparr>" using assms by (auto split: prod.splits)
  then show ?thesis by auto
qed (use assms in \<open>auto simp: broadcastValidationSync_def Let_def split: list.splits option.splits if_splits prod.splits\<close>)

text \<open>Only passing the filter adds to what a worker has to charge.\<close>

lemma worker_owes:
  assumes "worker_step cfg env job s = (job', s')"
  shows "count_list (charges job) e + of_bool (carries e job') \<le> of_bool (carries e job) + (of_bool (carries e job' \<and> \<not> carries e job) :: nat)"
    and "carries e job' \<and> \<not> carries e job \<Longrightarrow> CheckAndAdd (env_now env) (Filter s) e = (Filter s', True)"
  using assms by (cases job; auto simp: Let_def split: list.splits option.splits if_splits prod.splits)+

text \<open>No step changes the time to live.\<close>

lemma crew_step_ttl:
  assumes "crew_step cfg c ev = Returned c' u"
  shows "ttl (Filter (base c')) = ttl (Filter (base c))"
proof (cases ev)
  case (Worker i env)
  obtain job' s' where w: "worker_step cfg env (jobs c ! i) (base c) = (job', s')" by fastforce
  then show ?thesis using worker_filter [OF w] assms Worker by (cases "i < length (jobs c)") auto
next
  case (Whole b)
  then show ?thesis
    using filter_whole [of b cfg "base c"] assms
    by (cases "whole b"; cases "broker_step cfg (base c) b") (auto simp: cleanupWorker_pass_def)
next
  case (Finish i now)
  then show ?thesis using assms by (cases "hands c ! i") (auto split: if_splits)
qed (use assms in \<open>auto simp: pop_take_def resolve_take_def Let_def split: prod.splits if_splits option.splits\<close>)

lemma crew_run_ttl: "crew_run cfg c evs = Returned c' u \<Longrightarrow> ttl (Filter (base c')) = ttl (Filter (base c))"
proof (induction evs arbitrary: c)
  case (Cons ev evs)
  then obtain d where d: "crew_step cfg c ev = Returned d ()" "crew_run cfg d evs = Returned c' u"
    by (auto simp: bind_outcome_Returned)
  then show ?case using crew_step_ttl [OF d(1)] Cons.IH by simp
qed simp

lemma crew_step_owes:
  fixes e :: string
  assumes "crew_step cfg c ev = Returned c' u" "\<forall>t \<in> readings ev. from \<le> t \<and> t \<le> from + ttl (Filter (base c))"
  defines "F \<equiv> Filter (base c)" and "F' \<equiv> Filter (base c')" and "until \<equiv> from + ttl (Filter (base c))"
    and "n \<equiv> count_list (charged c) e + under_way e c" and "n' \<equiv> count_list (charged c') e + under_way e c'"
  shows "(remembered until e F \<longrightarrow> remembered until e F' \<and> n' \<le> n) \<and> (n' \<le> n \<or> n' = Suc n \<and> remembered until e F')"
proof (cases ev)
  case (Worker i env)
  show ?thesis
  proof (cases "i < length (jobs c)")
    case True
    obtain job' s' where w: "worker_step cfg env (jobs c ! i) (base c) = (job', s')" by fastforce
    then have c': "c' = c\<lparr>base := s', jobs := (jobs c)[i := job'], charged := charged c @ charges (jobs c ! i)\<rparr>"
      using assms(1) Worker True by simp
    have F: "remembered until e F \<longrightarrow> remembered until e F'"
      using worker_filter [OF w] remembered_CheckAndAdd unfolding F_def F'_def c' by auto
    let ?new = "carries e job' \<and> \<not> carries e (jobs c ! i)"
    have "n' \<le> n + of_bool ?new"
      using worker_owes(1) [OF w, of e] filter_length_update [OF True, of "carries e" job'] unfolding n_def n'_def c' under_way_def by simp
    moreover have "remembered until e F'" "\<not> remembered until e F" if ?new
    proof -
      have p: "CheckAndAdd (env_now env) F e = (F', True)" using worker_owes(2) [OF w that] unfolding F_def F'_def c' by simp
      then show "\<not> remembered until e F" using remembered_refused [of until e F "env_now env"] by auto
      show "remembered until e F'" using passed_remembered [OF p] assms(2) Worker unfolding F_def until_def by simp
    qed
    ultimately show ?thesis using F by (cases ?new) auto
  qed (use assms(1) Worker in \<open>simp add: F_def F'_def n_def n'_def\<close>)
next
  case (Whole b)
  have "\<forall>t \<in> readings (Whole b). t \<le> until" using assms(2) Whole unfolding until_def by simp
  then show ?thesis
    using remembered_whole [of b until e "base c" cfg] assms(1) Whole unfolding F_def F'_def n_def n'_def under_way_def
    by (cases "whole b"; cases "broker_step cfg (base c) b") auto
next
  case (Finish i now)
  then show ?thesis using assms(1) unfolding F_def F'_def n_def n'_def under_way_def
    by (cases "hands c ! i") (auto split: if_splits)
qed (use assms(1) in \<open>auto simp: F_def F'_def n_def n'_def under_way_def pop_take_def resolve_take_def Let_def split: prod.splits if_splits option.splits\<close>)

lemma crew_run_owes:
  fixes e :: string
  assumes "crew_run cfg c evs = Returned c' u" "\<forall>ev \<in> set evs. \<forall>t \<in> readings ev. from \<le> t \<and> t \<le> from + ttl (Filter (base c))"
  defines "until \<equiv> from + ttl (Filter (base c))"
    and "n \<equiv> count_list (charged c) e + under_way e c" and "n' \<equiv> count_list (charged c') e + under_way e c'"
  shows "(remembered until e (Filter (base c)) \<longrightarrow> n' \<le> n) \<and> n' \<le> Suc n"
  using assms(1,2) unfolding until_def n_def n'_def
proof (induction evs arbitrary: c)
  case (Cons ev evs)
  from Cons.prems(1) obtain d where d: "crew_step cfg c ev = Returned d ()" "crew_run cfg d evs = Returned c' u"
    by (auto simp: bind_outcome_Returned)
  have "\<forall>t \<in> readings ev. from \<le> t \<and> t \<le> from + ttl (Filter (base c))" using Cons.prems(2) by simp
  from crew_step_owes [OF d(1) this, of e] Cons.IH [OF d(2)] crew_step_ttl [OF d(1)] Cons.prems(2)
  show ?case by (simp del: One_nat_def) linarith
qed simp

section \<open>No event is lost between two locks\<close>

text \<open>The events a broker is answerable for when its handlers and workers may hold some of them in hand.\<close>

fun to_queue :: "job \<Rightarrow> string set" where
  "to_queue (Queueing mission) = {event_of mission}"
| "to_queue _ = {}"

definition crew_holds :: "'r crew \<Rightarrow> string set" where
  "crew_holds c = held (base c) \<union> in_hand ` set (hands c) \<union> (\<Union>job \<in> set (jobs c). to_queue job)"

fun crew_settles :: "('r, 'sk) broker_cfg \<Rightarrow> crew_event \<Rightarrow> string set" where
  "crew_settles cfg (ResolveTake verb body) = settles cfg (EResolve verb body)"
| "crew_settles cfg _ = {}"

lemma worker_keeps:
  "worker_step cfg env job s = (job', s') \<Longrightarrow> broker_inv s \<Longrightarrow> broker_inv s' \<and> held s \<union> to_queue job \<subseteq> held s'"
  by (cases job) (auto simp: broker_inv_def held_def broadcastValidationSync_def Let_def pq.invar_enqueue
      split: list.splits option.splits if_splits prod.splits)

lemma pop_take_keeps:
  assumes "pop_take verb s = (s', hs)" "broker_inv s"
  shows "broker_inv s' \<and> held s \<subseteq> held s' \<union> in_hand ` set hs"
proof (cases "verb = ''GET'' \<and> snd (snd (Dequeue (Queue s)))")
  case True
  then obtain q m where d: "Dequeue (Queue s) = (q, m, True)" by (cases "Dequeue (Queue s)") auto
  then have "pq_invar q \<and> queued (Queue s) = insert (event_of m) (queued q)" using queued_Dequeue assms(2) by (auto simp: broker_inv_def)
  with True d assms show ?thesis by (auto simp: pop_take_def broker_inv_def held_def)
next
  case False
  with assms show ?thesis by (auto simp: pop_take_def Dequeue_def Let_def split: prod.splits if_splits)
qed

lemma resolve_take_keeps:
  assumes "resolve_take cfg verb body s = (s', hs)" "broker_inv s"
  shows "broker_inv s' \<and> held s - settles cfg (EResolve verb body) \<subseteq> held s' \<union> in_hand ` set hs"
  using assms by (auto simp: resolve_take_def broker_inv_def held_def Let_def pending_inv_update split: option.splits if_splits)

lemma handler_finish_keeps:
  "broker_inv s \<Longrightarrow> broker_inv (handler_finish now h s) \<and> insert (in_hand h) (held s) \<subseteq> held (handler_finish now h s)"
  by (cases h) (auto simp: broker_inv_def held_def pending_inv_update pq.invar_enqueue)

lemma crew_step_keeps:
  assumes "crew_step cfg c ev = Returned c' u" "broker_inv (base c)"
  shows "broker_inv (base c') \<and> crew_holds c - crew_settles cfg ev \<subseteq> crew_holds c'"
proof (cases ev)
  case (Worker i env)
  show ?thesis
  proof (cases "i < length (jobs c)")
    case True
    obtain job' s' where w: "worker_step cfg env (jobs c ! i) (base c) = (job', s')" by fastforce
    have others: "job = jobs c ! i \<or> job \<in> set ((jobs c)[i := job'])" if "job \<in> set (jobs c)" for job
      using that by (metis in_set_conv_nth length_list_update nth_list_update_neq)
    have c': "c' = c\<lparr>base := s', jobs := (jobs c)[i := job'], charged := charged c @ charges (jobs c ! i)\<rparr>"
      using assms(1) Worker True w by simp
    have "crew_holds c \<subseteq> crew_holds c'"
      using worker_keeps [OF w assms(2)] others unfolding crew_holds_def c' by fastforce
    then show ?thesis using worker_keeps [OF w assms(2)] unfolding c' by auto
  qed (use assms Worker in simp)
next
  case (PopTake verb)
  then show ?thesis
    using pop_take_keeps [of verb "base c"] assms by (auto simp: crew_holds_def split: prod.splits)
next
  case (ResolveTake verb body)
  then show ?thesis
    using resolve_take_keeps [of cfg verb body "base c"] assms by (fastforce simp: crew_holds_def split: prod.splits)
next
  case (Finish i now)
  show ?thesis
  proof (cases "i < length (hands c)")
    case True
    have "set (hands c) = insert (hands c ! i) (set (take i (hands c) @ drop (Suc i) (hands c)))"
      using arg_cong [OF id_take_nth_drop [OF True], of set] by simp
    moreover have "c' = c\<lparr>base := handler_finish now (hands c ! i) (base c), hands := take i (hands c) @ drop (Suc i) (hands c)\<rparr>"
      using assms(1) Finish True by simp
    ultimately show ?thesis
      using handler_finish_keeps [OF assms(2), of now "hands c ! i"] unfolding crew_holds_def
      by (simp del: set_append handler_finish.simps in_hand.simps) blast
  qed (use assms Finish in simp)
next
  case (Whole b)
  have "settles cfg b = {}" if "whole b" using that by (cases b) auto
  then show ?thesis
    using keeps_step [of cfg b "base c"] assms Whole
    by (cases "whole b"; cases "broker_step cfg (base c) b") (auto simp: keeps_def crew_holds_def)
qed

text \<open>From the moment the ledger has approved a mission, or a broker holds it, its event is in the queue, checked out, or in the
  hands of a worker or handler, until a station reports on it with something other than a requeue.\<close>

lemma crew_loses_nothing:
  assumes "crew_run cfg c evs = Returned c' u" "broker_inv (base c)"
    and "e \<in> crew_holds c" "\<forall>ev \<in> set evs. e \<notin> crew_settles cfg ev"
  shows "e \<in> crew_holds c' \<and> broker_inv (base c')"
  using assms
proof (induction evs arbitrary: c)
  case (Cons ev evs)
  then obtain d where d: "crew_step cfg c ev = Returned d ()" "crew_run cfg d evs = Returned c' u"
    by (auto simp: bind_outcome_Returned)
  then show ?case using crew_step_keeps [OF d(1)] Cons by auto
qed simp

section \<open>Properties\<close>

text \<open>C13. Ten workers charge once: whatever a broker has done before, and however its workers, handlers and background passes
  interleave between their locks and while the ledger is asked, in any stretch of 60 seconds \<open>SpendCredit\<close> is called at most
  once for an event, beside the calls for which a worker had already passed the filter when the stretch
  began; workers that are still on their way to the call at its end are counted too.\<close>

theorem workers_charge_once:
  assumes "crew_run cfg (NewCrew cfg) evs = Returned c u" "crew_run cfg c evs' = Returned c' u'"
    and "\<forall>ev \<in> set evs'. \<forall>t \<in> readings ev. from \<le> t \<and> t \<le> from + 60 * Second"
  shows "count_list (charged c') e + under_way e c' \<le> count_list (charged c) e + under_way e c + 1"
proof -
  have "ttl (Filter (base c)) = 60 * Second"
    using crew_run_ttl [OF assms(1)] by (simp add: NewCrew_def NewBroker_def NewIdempotencyFilter_def)
  then show ?thesis using crew_run_owes [OF assms(2), of "from" e] assms(3) by simp
qed

text \<open>Two workers take two copies of one packet before either of them asks the filter.\<close>

definition example_race :: "crew_event list" where
  "example_race =
     [Whole (EDatagram (Some ''p1'')), Whole (EDatagram (Some ''p1'')), Worker 0 example_env, Worker 1 example_env,
      Worker 1 example_env, Worker 0 example_env, Worker 1 example_env, Worker 1 example_env, Worker 1 example_env]"

lemma example_race_run:
  "\<exists>c. crew_run example_cfg (NewCrew example_cfg) example_race = Returned c () \<and> charged c = [''event-0001'']"
proof -
  have "GetOwnerIP (cfg_ring example_cfg) (NewSectorRouter (cfg_ring example_cfg) 25 ''tasks.broker'') n = []" for n
    using New_owner [OF example_cfg_ring] .
  moreover have "IsRequisition (example_data e)" "SensorID (example_data e) \<noteq> []" "\<not> SectorID (example_data e) \<le> 0" "EventID (example_data e) = e" for e
    by (simp_all add: example_data_def)
  ultimately show ?thesis
    using example_pays
    by (simp add: example_race_def NewCrew_def NewBroker_def startUDPIngestion_turn_def example_unmarshal_data eval_nat_numeral
        NewIdempotencyFilter_def CheckAndAdd_simps split: prod.split)
qed

theorem workers_charge_once_witness:
  "\<exists>c. crew_run example_cfg (NewCrew example_cfg) example_race = Returned c () \<and> charged c = [''event-0001''] \<and> under_way ''event-0001'' c = 0"
proof -
  obtain c where c: "crew_run example_cfg (NewCrew example_cfg) example_race = Returned c ()" "charged c = [''event-0001'']"
    using example_race_run by blast
  have "under_way ''event-0001'' (NewCrew example_cfg) = 0" "charged (NewCrew example_cfg) = []" by (simp_all add: under_way_def NewCrew_def)
  moreover have "crew_run example_cfg (NewCrew example_cfg) [] = Returned (NewCrew example_cfg) ()" by simp
  ultimately have "under_way ''event-0001'' c = 0"
    using workers_charge_once [of example_cfg "[]" _ _ example_race c "()" 0 "''event-0001''"] c
    by (simp add: example_race_def example_env_def)
  then show ?thesis using c by blast
qed

end
