(* ===== verification/Spec2Isabelle.thy ===== *)
theory Spec2Isabelle
  imports Swarm Process Ledger_Process API_Types Broker_Workers
begin

text \<open>
  \<^bold>\<open>Ormuz ledger.\<close> The program coordinates drones over a grid of sectors. Sensors (\<open>src/cmd/sensor\<close>,
  \<open>src/internal/sensor\<close>) send telemetry by UDP to every broker. A broker (\<open>src/cmd/broker\<close>) drops repeated
  events, stamps a mission with a Lamport clock (\<open>src/pkg/clock\<close>), finds the owner of the sector on a
  consistent-hashing ring, has the owner charge one credit on a replicated ledger
  (\<open>src/internal/ledger\<close>, an ABCI application over LevelDB) and queues the mission
  (\<open>src/pkg/queue\<close>); the other brokers learn of it by gossip and keep a copy for the case that they
  inherit the sector. Stations (\<open>src/cmd/station\<close>) check missions out of a broker for their drones and
  keep them under a lease (\<open>src/pkg/radar\<close>). Drones (\<open>src/cmd/drone\<close>) fly them, renew the lease, and
  file a report on the ledger. All HTTP calls go through a retrying client (\<open>src/pkg/server\<close>).

  \<^bold>\<open>Theories.\<close> Every Go operation has one definition of the same name, at the granularity of its lock or
  of one pass of its loop; state is passed explicitly and every guard, early return and panic of the
  source is a branch. Goroutines are interleaved by the run functions and step relations one definition at a time, in
  any order. Finer interleavings are modelled where the code has no lock (\<open>clk_step\<close>) or waits on channels (\<open>flight_step\<close>).
  The broker's \<open>process\<close>, \<open>HandleQueuePop\<close> and \<open>HandleQueueResolve\<close> take several locks one after the other; in \<open>Broker\<close>, and in the
  runs of \<open>Broker_Flow\<close> and \<open>Swarm\<close>, each is one step, its network calls included, and \<open>Broker_Workers\<close> takes them apart at
  their locks. The other handlers and passes are one step everywhere.

  \<^item> \<open>Prelude\<close>, \<open>Go_Lib\<close>, \<open>Go_Heap\<close>: the Go language and library as far as the sources use them: panics that
    keep what was written (\<open>outcome\<close>), map iteration in an arbitrary order (\<open>range_order\<close>), 64-bit
    integers, \<open>strconv\<close>, \<open>strings\<close>, \<open>encoding/hex\<close>, \<open>encoding/base64\<close>, and \<open>container/heap\<close> with its contract, the
    locale \<open>heap_interface\<close>.
  \<^item> \<open>Go_UTF8\<close>, \<open>Go_JSON\<close>, \<open>Go_Base64\<close>, \<open>Go_Struct\<close>: \<open>encoding/json\<close>: UTF-8, string escapes, values, the depth-limited
    parser and the printer, filling a struct by its field names with Go's rules for case, \<open>null\<close>, repeated
    members and values of the wrong type, \<open>[]byte\<close> as base64. Parsing what was printed gives it back, with
    malformed bytes replaced.
  \<^item> \<open>Go_Float\<close>: rounding to 53 significant bits, ties to even.
  \<^item> \<open>Lamport_Clock\<close>: \<open>Tick\<close>, \<open>Get\<close>, \<open>Sync\<close>, and the step relation \<open>clk_step\<close> that interleaves goroutines at the
    atomic operations. Clock values handed out increase strictly until the 64 bits overflow.
  \<^item> \<open>Mission_Model\<close>, \<open>Mission_Queue\<close>: \<open>SensorData\<close>, \<open>Mission\<close>, and the priority queue with aging. The locale
    \<open>mission_queue\<close> is the contract radar, station and broker rely on; \<open>pq\<close> is its interpretation. The queue
    drains by priority, conserves events, and an aged mission is not overtaken in any later use of the queue.
  \<^item> \<open>Ledger_Crypto\<close>, \<open>Dedup\<close>, \<open>Ledger_App\<close>, \<open>Ledger_Spec\<close>, \<open>Ledger_Props\<close>, \<open>Ledger_Limits\<close>: transactions and signatures;
    the application's operations; the abstract ledger of balances, applied operations and
    reports, which the application refines; at-most-once application (from the locale \<open>dedup\<close>), accounting,
    authenticity, immutable reports; and what the code does not prevent: overdrafts, panics on short event
    names, locks taken by unknown types.
  \<^item> \<open>Ledger_Process\<close>: the validator process of \<open>src/cmd/ledger\<close>: start-up, ABCI requests, panics and restarts. Over a whole
    life the books balance, up to the debits of blocks that panicked, and every accepted transaction stays on file.
  \<^item> \<open>Idempotency\<close>: the broker's filter, a second interpretation of \<open>dedup\<close>, and its window across cleanups.
  \<^item> \<open>Radar\<close>: leases, renewals and sweeps; each mission marked is in flight, back in the queue, acknowledged, or replaced by
    a later mark of its event.
  \<^item> \<open>HTTP_Client\<close>: the retry loops, equal to a one-line reference, with the pauses they make.
  \<^item> \<open>Sector_Router\<close>: the ring and the watcher of the topology; brokers with the same view agree on owners.
  \<^item> \<open>Ledger_Client\<close>: \<open>SpendCredit\<close>, \<open>SaveReport\<close>, \<open>QueryGlobalState\<close>; when an approval means credit, and when not.
  \<^item> \<open>Broker_Buffers\<close>, \<open>Broker\<close>, \<open>Broker_Props\<close>, \<open>Broker_Safety\<close>, \<open>Broker_Flow\<close>: the shadow buffer and the waiting room;
    the whole broker as one state record with its handlers and background passes, run in any
    order by \<open>broker_run\<close>; no held event is lost, the broker stays up while event names are long
    enough for its log lines, what a packet leads to, failover, and where these fail.
  \<^item> \<open>Broker_Workers\<close>: the same broker with its ten workers and the handlers of stations interleaved at their locks
    (\<open>crew_run\<close>). Undisturbed they do what \<open>Broker\<close> says; together they charge an event at most once while the filter
    remembers it, and lose none.
  \<^item> \<open>Station\<close>, \<open>Drone\<close>, \<open>Sensor\<close>, \<open>Grid\<close>: the station's handlers and fallback loop, which tries to report every mission it stops
    tracking, and which of these reports get through; the drone's loop and the two goroutines of a flight as the step
    relation \<open>flight_step\<close>, whose outcome depends on the renewals that failed; the load generator; the positions of sensors
    and stations in rounded arithmetic.
  \<^item> \<open>Wire_Format\<close>, \<open>Wire\<close>: the JSON of every struct and message, from the field tags and map literals of the sources. The
    codecs the components above take as arguments are instantiated here: \<open>go_rpc_json\<close>, \<open>go_broker_json\<close>,
    \<open>go_station_json\<close>, \<open>go_drone_json\<close>, \<open>go_unmarshal_tx\<close>, \<open>go_marshal_state\<close>; what one process writes the next one reads.
  \<^item> \<open>Wire_Props\<close>, \<open>Wire_Ends\<close>: the paths from end to end with those codecs: from a sensor's shot to a queued mission, from a
    packet to a debit, from a broker's queue to a drone, from a drone's report to the archive, from the ledger to
    the explorer, and failover.
  \<^item> \<open>Swarm\<close>: several brokers, with the gossip any of them has sent in flight, as the step relation \<open>swarm_step\<close>; no broker
    acts on a mission that was not approved.
  \<^item> \<open>Process\<close>: the \<open>main\<close> functions from their environment variables, the routes of the two HTTP servers, the sensor
    process. \<open>API_Types\<close>: the message structs of \<open>src/pkg/server/api_types.go\<close>.
  \<^item> This theory: the way of a mission whose drone is lost, from the station's radar back into the
    broker's queue.

  \<^bold>\<open>Parameters.\<close> Code outside the repository is an argument: LevelDB (\<open>leveldb\<close>, laws \<open>leveldb_ok\<close>), Ed25519
  (\<open>ed25519\<close>, \<open>ed25519_ok\<close>), the consistent-hashing ring (\<open>consistent\<close>, \<open>consistent_ok\<close>), the CometBFT node
  (\<open>node_serves\<close>, \<open>node_answers\<close>), SHA-256; and of the Go library the text form of \<open>time.Time\<close> (\<open>time_codec\<close>, \<open>time_ok\<close>), \<open>ParseFloat\<close>,
  and the texts of error values. The theories below \<open>Wire\<close> take the JSON codec as an argument too, and their
  results hold for any codec that meets the stated hypotheses. Readings of clocks, of the
  network interfaces and of the DNS, random draws, the fate of each request, and the interference of other
  goroutines with a compare-and-swap are arguments as well, so that the theorems hold for all of them. Each
  hypothesis has a concrete instance in the closed examples.

  \<^bold>\<open>Bounds.\<close> There is no fuel: loops over a slice or a map recurse on the visited keys, the retry loop on the
  attempts left, the heap loops on the index, the JSON parser on the length of its text and the nesting Go allows
  (10000), each with a termination proof. Loops that run for ever are
  one definition per pass. Instants are unbounded integers of nanoseconds; \<open>int\<close> and \<open>uint64\<close> values are
  kept at 64 bits where the code calculates with them. The positions of \<open>Grid\<close> are exact for up to \<open>2 ^ 50\<close> sensors,
  where the rounded square root rounds up to the same whole number as the exact one.

  \<^bold>\<open>Not modelled.\<close> The socket calls and the signals of the \<open>main\<close> functions; the ABCI socket protocol; log texts,
  except that a log line that slices an event name can panic; the text of floating-point numbers in JSON, which only
  structs without a use contain; HTTP headers; stations and drones as further nodes of the swarm.
\<close>

section \<open>From the station back to the broker\<close>

text \<open>What the broker does with a station's request to take a mission back.\<close>

lemma resolve_requeues:
  assumes "decode_resolve (cfg_json cfg) body = Some (''REQUEUE'', m)" "pendingMissions b (event_of m) \<noteq> None"
    and "loggable (event_of m)" "pq_invar (Queue b)"
  shows "\<exists>b'. HandleQueueResolve cfg ''POST'' body b = Returned b' (reply 200 []) \<and>
    pq_contents (Queue b') = add_mset m (pq_contents (Queue b)) \<and> pendingMissions b' (event_of m) = None"
  using assms by (auto simp: HandleQueueResolve_def pq.contents_enqueue)

text \<open>A swept station has every expired mission in its fallback queue.\<close>

lemma sweep_queues_expired:
  assumes "radar_inv r" "records r e = Some rec" "now > ExpiresAt rec" "e \<in> set order" "sweep now order r = Returned r' u"
  shows "ifr_Mission rec \<in># pq_contents (rq r')"
proof -
  note s = sweep_result [OF assms(1,5)]
  have "ifr_Mission rec \<in># in_flight r"
    using in_flight_delete [of r e rec] assms(1,2) by (simp add: radar_inv_def)
  then have "ifr_Mission rec \<in># in_flight r' \<or> ifr_Mission rec \<in># pq_contents (rq r')"
    using s(3) by (metis union_iff)
  moreover have "records r' e = None" using s(2) [of e] assms(2-4) by (simp add: expired_at_def)
  then have "e \<notin> event_of ` set_mset (in_flight r')" using in_flight_events [OF s(1)] by auto
  moreover have "event_of (ifr_Mission rec) = e" using assms(1,2) by (simp add: radar_inv_def)
  ultimately show ?thesis by auto
qed

section \<open>Properties\<close>

text \<open>C18. A mission whose drone is lost comes back: when a lease has run out, the station's next sweep and as many
  ticks of its fallback loop as missions then wait there post a requeue of that mission, and when the JSON of
  that request arrives at the broker that has the mission checked out, it puts the same mission back into its queue.\<close>

theorem lost_drone_mission_returns:
  assumes "radar_inv (st_Radar s)" "\<forall>e \<in> tracked s. loggable e"
    and "records (st_Radar s) e = Some rec" "now > ExpiresAt rec" "e \<in> set order"
    and "cfg_json cfg = go_broker_json T f g" "sendable T (ifr_Mission rec)"
    and "broker_inv b" "pendingMissions b e \<noteq> None"
  shows "(\<exists>n s'. station_run J s (SSweep now order # replicate n (SFallback post)) = Returned s' () \<and>
      (BrokerURL s @ ''/queue/resolve'', ''REQUEUE'', ifr_Mission rec) \<in> set (posted s')) \<and>
    (\<exists>b'. broker_SetupRouter cfg net now' ''POST'' ''/queue/resolve'' (marshalled (json_resolve T ''REQUEUE'' (ifr_Mission rec))) b =
        Returned b' (reply 200 []) \<and>
      pq_contents (Queue b') = add_mset (ifr_Mission rec) (pq_contents (Queue b)) \<and> pendingMissions b' e = None)"
proof -
  have ev: "event_of (ifr_Mission rec) = e" using assms(1,3) by (simp add: radar_inv_def)
  have logs: "\<And>k r. records (st_Radar s) k = Some r \<Longrightarrow> expired_at now r \<Longrightarrow> loggable k"
    using assms(2) by (auto simp: tracked_def)
  obtain r where r: "sweep now order (st_Radar s) = Returned r ()" by (rule sweep_Returned [OF assms(1) logs])
  let ?s = "s\<lparr>st_Radar := r\<rparr>"
  have "tracked ?s = tracked s" using sweep_events [OF assms(1) r] by (simp add: tracked_def)
  then have "\<forall>e \<in> tracked ?s. loggable e" using assms(2) by simp
  then have "\<forall>m \<in># pq_contents (rq (st_Radar ?s)). loggable (event_of m)"
    unfolding tracked_def queued_def by blast
  moreover have "pq_invar (rq (st_Radar ?s))" using sweep_result(1) [OF assms(1) r] by (simp add: radar_inv_def)
  ultimately obtain s' where s': "station_run J ?s (replicate (size (pq_contents (rq (st_Radar ?s)))) (SFallback post)) = Returned s' ()"
    "\<forall>m \<in># pq_contents (rq (st_Radar ?s)). (BrokerURL ?s @ ''/queue/resolve'', ''REQUEUE'', m) \<in> set (posted s')"
    using fallback_drains [of ?s J post] by blast
  have "(BrokerURL s @ ''/queue/resolve'', ''REQUEUE'', ifr_Mission rec) \<in> set (posted s')"
    using s'(2) sweep_queues_expired [OF assms(1,3-5) r] by simp
  moreover have "station_run J s (SSweep now order # replicate (size (pq_contents (rq (st_Radar ?s)))) (SFallback post)) = Returned s' ()"
    using r s'(1) by simp
  moreover have "loggable e" using assms(2,3) by (auto simp: tracked_def)
  moreover have "valid_utf8 ''REQUEUE''" by (rule valid_ascii) (simp add: byte_val_def)
  then have "decode_resolve (cfg_json cfg) (marshalled (json_resolve T ''REQUEUE'' (ifr_Mission rec))) = Some (''REQUEUE'', ifr_Mission rec)"
    unfolding assms(6) by (rule resolve_read_back [OF assms(7)])
  ultimately show ?thesis
    using resolve_requeues [of cfg _ _ b] assms(8,9) ev by (auto simp: broker_inv_def broker_SetupRouter_def)
qed

text \<open>A station with one mission in flight, and the broker it came from.\<close>

definition example_lost_station :: StationServer where
  "example_lost_station = (NewStationServer ''http://b'')\<lparr>st_Radar := MarkInFlight 0 (NewInFlightManager (New 10)) example_target (10 * Second)\<rparr>"

definition example_owner_broker :: "string list broker" where
  "example_owner_broker = (NewBroker go_example_cfg)\<lparr>pendingMissions :=
     [''event-0001'' \<mapsto> \<lparr>pm_Mission = example_target, CheckoutTime = 0\<rparr>]\<rparr>"

theorem lost_drone_mission_returns_witness:
  "\<exists>b'. broker_SetupRouter go_example_cfg go_example_net 0 ''POST'' ''/queue/resolve''
      (marshalled (json_resolve example_time ''REQUEUE'' example_target)) example_owner_broker = Returned b' (reply 200 []) \<and>
    pendingMissions b' ''event-0001'' = None"
proof -
  have e: "event_of example_target = ''event-0001''" by (simp add: example_target_def example_data_def)
  have i: "radar_inv (st_Radar example_lost_station)"
    by (auto simp: example_lost_station_def radar_inv_def MarkInFlight_def NewInFlightManager_def split: if_splits)
  have t: "\<forall>e \<in> tracked example_lost_station. loggable e"
    by (auto simp: example_lost_station_def tracked_def MarkInFlight_def NewInFlightManager_def e loggable_def queued_def split: if_splits)
  have r: "records (st_Radar example_lost_station) ''event-0001'' = Some \<lparr>ifr_Mission = example_target, ExpiresAt = 10 * Second\<rparr>"
    by (simp add: example_lost_station_def MarkInFlight_def e)
  have c: "cfg_json go_example_cfg = go_broker_json example_time (\<lambda>_. None) (\<lambda>_. [])"
    by (simp add: go_example_cfg_def go_example_json_def)
  have b: "broker_inv example_owner_broker" "pendingMissions example_owner_broker ''event-0001'' \<noteq> None"
    using broker_inv_New [of go_example_cfg] e by (auto simp: example_owner_broker_def broker_inv_def pending_inv_def split: if_splits)
  have "11 * Second > ExpiresAt \<lparr>ifr_Mission = example_target, ExpiresAt = 10 * Second\<rparr>" "''event-0001'' \<in> set [''event-0001'']"
    "sendable example_time (ifr_Mission \<lparr>ifr_Mission = example_target, ExpiresAt = 10 * Second\<rparr>)"
    using example_target_sendable(1) by simp_all
  from lost_drone_mission_returns [where cfg = go_example_cfg, OF i t r this(1,2) c this(3) b, where net = go_example_net and now' = 0]
  show ?thesis by auto
qed

end
